theory Spec2Isabelle
  imports Complex_Main "HOL-Library.AList"
begin

section \<open>Configuration (multirec/config/config.py)\<close>

text \<open>
  The pydantic model \<^verbatim>\<open>Config\<close>. Paths are kept as strings. The float field
  \<^verbatim>\<open>backoff_base_seconds\<close> is only stored by the program and never computed
  with, so it is modelled by a real number.
\<close>

record Config =
  download_dir :: string
  db_path :: string
  concurrency_limit :: int
  segment_duration_min :: int
  retry_max_attempts :: int
  backoff_base_seconds :: real

text \<open>The keyword arguments of \<^verbatim>\<open>Config(**data)\<close>: \<open>None\<close> is an omitted key, which
  takes the field's default. The arguments are already of the field's type.\<close>

record Config_kwargs =
  kw_download_dir :: "string option"
  kw_db_path :: "string option"
  kw_concurrency_limit :: "int option"
  kw_segment_duration_min :: "int option"
  kw_retry_max_attempts :: "int option"
  kw_backoff_base_seconds :: "real option"

definition validate_concurrency :: "int \<Rightarrow> string + int" where
  "validate_concurrency v =
     (if v < 1 then Inl ''concurrency_limit must be at least 1'' else Inr v)"

definition validate_segment_duration :: "int \<Rightarrow> string + int" where
  "validate_segment_duration v =
     (if v < 1 then Inl ''segment_duration_min must be at least 1 minute'' else Inr v)"

text \<open>A pydantic validator runs on a value that was given, not on the default.
  \<open>field_errors\<close> is the list of messages one field contributes to the ValidationError.\<close>

definition field_errors :: "('a \<Rightarrow> string + 'a) \<Rightarrow> 'a option \<Rightarrow> string list" where
  "field_errors validator given =
     (case given of
        None \<Rightarrow> []
      | Some v \<Rightarrow> (case validator v of Inl msg \<Rightarrow> [msg] | Inr _ \<Rightarrow> []))"

definition field_value :: "'a \<Rightarrow> 'a option \<Rightarrow> 'a" where
  "field_value dflt given = (case given of None \<Rightarrow> dflt | Some v \<Rightarrow> v)"

text \<open>\<^verbatim>\<open>Config(...)\<close>: \<open>Inl\<close> is the ValidationError with its messages, \<open>Inr\<close> the model.
  \<open>home\<close> is \<^verbatim>\<open>Path.home()\<close>, on which two defaults depend. Only
  \<^verbatim>\<open>concurrency_limit\<close> and \<^verbatim>\<open>segment_duration_min\<close> have a validator.\<close>

definition Config_init :: "string \<Rightarrow> Config_kwargs \<Rightarrow> string list + Config" where
  "Config_init home kw =
     (let errs = field_errors validate_concurrency (kw_concurrency_limit kw)
               @ field_errors validate_segment_duration (kw_segment_duration_min kw)
      in if errs \<noteq> [] then Inl errs
         else Inr \<lparr> download_dir = field_value (home @ ''/multirec_downloads'') (kw_download_dir kw),
                    db_path = field_value (home @ ''/.multirec.db'') (kw_db_path kw),
                    concurrency_limit = field_value 4 (kw_concurrency_limit kw),
                    segment_duration_min = field_value 30 (kw_segment_duration_min kw),
                    retry_max_attempts = field_value 5 (kw_retry_max_attempts kw),
                    backoff_base_seconds = field_value 5 (kw_backoff_base_seconds kw) \<rparr>)"

definition no_kwargs :: Config_kwargs where
  "no_kwargs = \<lparr> kw_download_dir = None, kw_db_path = None, kw_concurrency_limit = None,
                   kw_segment_duration_min = None, kw_retry_max_attempts = None,
                   kw_backoff_base_seconds = None \<rparr>"


section \<open>Text helpers of the recorder\<close>

text \<open>Text is a list of 8-bit characters; the model covers ASCII output of the
  download process. \<open>is_space\<close> is what \<^verbatim>\<open>str.strip()\<close> and the pattern \<^verbatim>\<open>\s\<close>
  treat as white space in that range.\<close>

definition is_space :: "char \<Rightarrow> bool" where
  "is_space c = (of_char c \<in> {9, 10, 11, 12, 13, 28, 29, 30, 31, 32 :: nat})"

definition is_digit :: "char \<Rightarrow> bool" where
  "is_digit c = (48 \<le> (of_char c :: nat) \<and> (of_char c :: nat) \<le> 57)"

definition strip :: "string \<Rightarrow> string" where
  "strip s = rev (dropWhile is_space (rev (dropWhile is_space s)))"

definition digit_char :: "nat \<Rightarrow> char" where
  "digit_char d = ''0123456789'' ! d"

fun str_nat :: "nat \<Rightarrow> string" where
  "str_nat n = (if n < 10 then [digit_char n] else str_nat (n div 10) @ [digit_char (n mod 10)])"

text \<open>\<^verbatim>\<open>str(n)\<close> and \<^verbatim>\<open>f"{n}"\<close> for an int.\<close>

definition str_int :: "int \<Rightarrow> string" where
  "str_int i = (if i < 0 then CHR ''-'' # str_nat (nat (- i)) else str_nat (nat i))"

definition digits_value :: "string \<Rightarrow> nat" where
  "digits_value s = foldl (\<lambda>a c. 10 * a + (of_char c - 48)) 0 s"

text \<open>\<^verbatim>\<open>float(s)\<close> on the strings the pattern group \<^verbatim>\<open>[0-9.]+\<close> can capture
  (digits and dots): the text converts when it has at least one digit and at most one
  dot, and \<^verbatim>\<open>float\<close> raises ValueError otherwise. The value is kept exact.\<close>

definition py_float :: "string \<Rightarrow> string + real" where
  "py_float s =
     (let whole = takeWhile (\<lambda>c. c \<noteq> CHR ''.'') s;
          tail = dropWhile (\<lambda>c. c \<noteq> CHR ''.'') s;
          frac = (case tail of [] \<Rightarrow> [] | _ # f \<Rightarrow> f)
      in if list_all is_digit whole \<and> list_all is_digit frac \<and> (whole \<noteq> [] \<or> frac \<noteq> [])
         then Inr (real (digits_value whole) + real (digits_value frac) / 10 ^ length frac)
         else Inl (''could not convert string to float: '' @ [CHR 0x27] @ s @ [CHR 0x27]))"


section \<open>The progress pattern (recorder.py, progress_re)\<close>

text \<open>
  A backtracking matcher for the constructs the pattern uses. A candidate is a position
  in the text together with the groups opened and closed so far; each item maps a
  candidate to its successors in the order a backtracking matcher tries them (greedy:
  longest first; lazy: shortest first), so the first candidate left after the last item
  is the match that \<^verbatim>\<open>re\<close> reports.
\<close>

datatype item =
    Lit string
  | One "char \<Rightarrow> bool"
  | Plus "char \<Rightarrow> bool"
  | Lazy_star "char \<Rightarrow> bool"
  | Opt_lit string
  | Open_group string
  | Close_group string

record cand =
  pos :: nat
  rest :: string
  opened :: "(string \<times> nat) list"
  groups :: "(string \<times> nat \<times> nat) list"

definition advance :: "cand \<Rightarrow> nat \<Rightarrow> cand" where
  "advance c k = c\<lparr>pos := pos c + k, rest := drop k (rest c)\<rparr>"

definition is_prefix :: "string \<Rightarrow> string \<Rightarrow> bool" where
  "is_prefix l s = (take (length l) s = l)"

fun item_step :: "item \<Rightarrow> cand \<Rightarrow> cand list" where
  "item_step (Lit l) c = (if is_prefix l (rest c) then [advance c (length l)] else [])"
| "item_step (One p) c =
     (case rest c of [] \<Rightarrow> [] | x # _ \<Rightarrow> if p x then [advance c 1] else [])"
| "item_step (Plus p) c =
     map (advance c) (rev [1 ..< Suc (length (takeWhile p (rest c)))])"
| "item_step (Lazy_star p) c =
     map (advance c) [0 ..< Suc (length (takeWhile p (rest c)))]"
| "item_step (Opt_lit l) c =
     (if is_prefix l (rest c) then [advance c (length l)] else []) @ [c]"
| "item_step (Open_group g) c = [c\<lparr>opened := (g, pos c) # opened c\<rparr>]"
| "item_step (Close_group g) c =
     (case map_of (opened c) g of
        None \<Rightarrow> []
      | Some b \<Rightarrow> [c\<lparr>groups := (g, b, pos c) # groups c\<rparr>])"

primrec run_items :: "item list \<Rightarrow> cand list \<Rightarrow> cand list" where
  "run_items [] cs = cs"
| "run_items (i # is) cs = run_items is (concat (map (item_step i) cs))"

definition match_at :: "item list \<Rightarrow> string \<Rightarrow> nat \<Rightarrow> cand option" where
  "match_at items text start =
     (case run_items items [\<lparr>pos = start, rest = drop start text, opened = [], groups = []\<rparr>] of
        [] \<Rightarrow> None
      | c # _ \<Rightarrow> Some c)"

text \<open>\<^verbatim>\<open>pattern.search(text)\<close>: the match at the leftmost start position that has one.\<close>

definition search :: "item list \<Rightarrow> string \<Rightarrow> cand option" where
  "search items text =
     (case List.map_filter (match_at items text) [0 ..< Suc (length text)] of
        [] \<Rightarrow> None
      | c # _ \<Rightarrow> Some c)"

text \<open>\<^verbatim>\<open>m.group(name)\<close>.\<close>

definition group :: "string \<Rightarrow> cand \<Rightarrow> string \<Rightarrow> string" where
  "group text m g =
     (case map_of (groups m) g of
        None \<Rightarrow> []
      | Some (b, e) \<Rightarrow> take (e - b) (drop b text))"

definition digit_or_dot :: "char \<Rightarrow> bool" where
  "digit_or_dot c = (is_digit c \<or> c = CHR ''.'')"

definition eta_char :: "char \<Rightarrow> bool" where
  "eta_char c = (is_digit c \<or> c = CHR '':'' \<or> c = CHR ''.'')"

definition unit_letter :: "char \<Rightarrow> bool" where
  "unit_letter c = (c = CHR ''K'' \<or> c = CHR ''M'' \<or> c = CHR ''G'')"

definition not_newline :: "char \<Rightarrow> bool" where
  "not_newline c = (c \<noteq> CHR 0x0A)"

text \<open>\<^verbatim>\<open>\[download\]\s+(?P<pct>[0-9.]+)%.*?of\s+~?(?P<size>[0-9.]+)(?P<unit>[KMG]iB).*?ETA\s+(?P<eta>[0-9:\.]+)\<close>\<close>

definition progress_re :: "item list" where
  "progress_re =
     [Lit ''[download]'', Plus is_space,
      Open_group ''pct'', Plus digit_or_dot, Close_group ''pct'',
      Lit ''%'', Lazy_star not_newline, Lit ''of'', Plus is_space, Opt_lit ''~'',
      Open_group ''size'', Plus digit_or_dot, Close_group ''size'',
      Open_group ''unit'', One unit_letter, Lit ''iB'', Close_group ''unit'',
      Lazy_star not_newline, Lit ''ETA'', Plus is_space,
      Open_group ''eta'', Plus eta_char, Close_group ''eta'']"


section \<open>The recorder (multirec/recorder/recorder.py)\<close>

text \<open>A \<^verbatim>\<open>datetime\<close> is represented by its \<^verbatim>\<open>isoformat()\<close> text.\<close>

type_synonym datetime = string

record RecordingResult =
  success :: bool
  file_path :: "string option"
  metadata_path :: "string option"
  error :: "string option"
  start_time :: datetime
  end_time :: "datetime option"

text \<open>What \<^verbatim>\<open>on_update\<close> is called with. For a progress line the source formats
  \<^verbatim>\<open>f"eta={eta} total={mb:.1f}MB pct={pct}%"\<close>; the model hands over the three values
  the message is formatted from. The callback answers \<open>None\<close> when it returns and
  \<open>Some e\<close> when it raises an exception with message \<open>e\<close>.\<close>

datatype update_msg = Progress string real string | Text string

type_synonym on_update_fn = "update_msg \<Rightarrow> string option"

record StreamRecorder =
  channel_url :: string
  output_dir :: string
  segment_duration :: int
  quality :: string
  on_update :: "on_update_fn option"
  cancel_event :: bool
  crf :: int

text \<open>\<^verbatim>\<open>StreamRecorder.__init__\<close>: the event starts unset.\<close>

definition StreamRecorder_init ::
  "string \<Rightarrow> string \<Rightarrow> int \<Rightarrow> string \<Rightarrow> on_update_fn option \<Rightarrow> int \<Rightarrow> StreamRecorder" where
  "StreamRecorder_init url dir seg q cb c =
     \<lparr> channel_url = url, output_dir = dir, segment_duration = seg, quality = q,
       on_update = cb, cancel_event = False, crf = c \<rparr>"

text \<open>\<^verbatim>\<open>cancel()\<close>: \<^verbatim>\<open>self._cancel_event.set()\<close>.\<close>

definition cancel :: "StreamRecorder \<Rightarrow> StreamRecorder" where
  "cancel r = r\<lparr>cancel_event := True\<rparr>"

text \<open>What the recorder does to the outside world, in order.\<close>

datatype action =
    Spawn "string list"
  | Terminate
  | Wait_exit
  | Notify update_msg
  | Write_metadata string "(string \<times> string) list"
  | Rmtree string

text \<open>
  The environment of one \<^verbatim>\<open>record()\<close> call. While the coroutine is suspended in
  \<^verbatim>\<open>await process.stdout.readline()\<close> another coroutine may call \<^verbatim>\<open>cancel()\<close>
  (\<open>Cancel_called\<close>); the read ends with the bytes read (\<open>Returns\<close>, empty at end of
  file) or with an exception (\<open>Raises\<close>). When the events run out the read never
  returns. \<^verbatim>\<open>process.terminate()\<close> and \<^verbatim>\<open>process.wait()\<close> are taken to succeed. The
  cancellation of the task that runs \<^verbatim>\<open>record()\<close> (\<^verbatim>\<open>Task.cancel()\<close>, which raises
  CancelledError inside the coroutine) is an event of the scheduler's model, not of this
  one.
\<close>

datatype read_result = Returns string | Raises string

datatype io = Cancel_called | Read read_result

datatype spawned = Spawn_fails string | Exit_code int

record pipeline_env =
  utcnow_start :: datetime
  utcnow_end :: datetime
  mkdtemp :: string
  yt_spawn_error :: "string option"
  stdout_events :: "io list"
  yt_returncode :: int
  remux :: spawned
  transcode :: spawned
  metadata_written :: bool

datatype outcome = Returned RecordingResult | Raised string | Hangs

definition path_join :: "string \<Rightarrow> string \<Rightarrow> string" where
  "path_join d name = d @ ''/'' @ name"

text \<open>\<^verbatim>\<open>f"{start_time:%Y%m%dT%H%M%S}"\<close> on the ISO text of the time.\<close>

definition stamp :: "datetime \<Rightarrow> string" where
  "stamp t = filter (\<lambda>c. c \<noteq> CHR ''-'' \<and> c \<noteq> CHR '':'') (take 19 t)"

definition yt_cmd :: "StreamRecorder \<Rightarrow> string \<Rightarrow> string list" where
  "yt_cmd r temp_file =
     [''yt-dlp'', channel_url r, ''-N'', ''8'', ''-f'', quality r, ''--downloader'', ''ffmpeg'',
      ''--hls-use-mpegts'', ''-o'', temp_file]"

definition ff_cmd :: "string \<Rightarrow> string \<Rightarrow> string list" where
  "ff_cmd temp_file output_file =
     [''ffmpeg'', ''-y'', ''-i'', temp_file, ''-c'', ''copy'', ''-movflags'', ''+faststart'',
      output_file]"

definition trans_cmd :: "StreamRecorder \<Rightarrow> string \<Rightarrow> string \<Rightarrow> string list" where
  "trans_cmd r temp_file output_file =
     [''ffmpeg'', ''-y'', ''-i'', temp_file, ''-c:v'', ''libx264'', ''-crf'', str_int (crf r),
      ''-c:a'', ''aac'', ''-movflags'', ''+faststart'', output_file]"

text \<open>\<^verbatim>\<open>{"KiB": 1/1024, "MiB": 1, "GiB": 1024}.get(unit, 1)\<close>\<close>

definition unit_factor :: "string \<Rightarrow> real" where
  "unit_factor u =
     (if u = ''KiB'' then 1 / 1024 else if u = ''MiB'' then 1 else if u = ''GiB'' then 1024 else 1)"

definition call_update :: "on_update_fn \<Rightarrow> update_msg \<Rightarrow> string + action list" where
  "call_update f msg = (case f msg of None \<Rightarrow> Inr [Notify msg] | Some e \<Rightarrow> Inl e)"

text \<open>Lines 104 to 115: what is done with one line that was read. \<open>Inl e\<close> is an
  exception with message \<open>e\<close> (from \<^verbatim>\<open>float\<close> or from the callback).\<close>

definition handle_line :: "on_update_fn option \<Rightarrow> string \<Rightarrow> string + action list" where
  "handle_line cb line =
     (let text = strip line in
      case cb of
        None \<Rightarrow> Inr []
      | Some f \<Rightarrow>
          if text = [] then Inr []
          else (case search progress_re text of
                  Some m \<Rightarrow>
                    (case py_float (group text m ''size'') of
                       Inl e \<Rightarrow> Inl e
                     | Inr sz \<Rightarrow>
                         (let factor = unit_factor (group text m ''unit'');
                              mb = sz * factor
                          in call_update f (Progress (group text m ''eta'') mb (group text m ''pct''))))
                | None \<Rightarrow> call_update f (Text text)))"

datatype loop_exit = Loop_cancelled | Loop_eof | Loop_raised string | Loop_hangs

text \<open>The \<^verbatim>\<open>while True\<close> loop of lines 96 to 115. \<open>read_loop\<close> is the top of an
  iteration, where the event is tested; \<open>wait_line\<close> is the suspended read, during
  which the flag may be set.\<close>

fun read_loop :: "on_update_fn option \<Rightarrow> bool \<Rightarrow> io list \<Rightarrow> action list \<times> loop_exit"
and wait_line :: "on_update_fn option \<Rightarrow> bool \<Rightarrow> io list \<Rightarrow> action list \<times> loop_exit" where
  "read_loop cb flag evs = (if flag then ([], Loop_cancelled) else wait_line cb flag evs)"
| "wait_line cb flag [] = ([], Loop_hangs)"
| "wait_line cb flag (Cancel_called # evs) = wait_line cb True evs"
| "wait_line cb flag (Read (Raises e) # evs) = ([], Loop_raised e)"
| "wait_line cb flag (Read (Returns line) # evs) =
     (if line = [] then ([], Loop_eof)
      else (case handle_line cb line of
              Inl e \<Rightarrow> ([], Loop_raised e)
            | Inr acts \<Rightarrow> (let (acts', ex) = read_loop cb flag evs in (acts @ acts', ex))))"

definition failed :: "string \<Rightarrow> datetime \<Rightarrow> RecordingResult" where
  "failed msg t =
     \<lparr> success = False, file_path = None, metadata_path = None, error = Some msg,
       start_time = t, end_time = None \<rparr>"

definition metadata ::
  "StreamRecorder \<Rightarrow> datetime \<Rightarrow> datetime \<Rightarrow> string \<Rightarrow> (string \<times> string) list" where
  "metadata r t0 t1 output_file =
     [(''channel_url'', channel_url r), (''quality'', quality r),
      (''segment_duration'', str_int (segment_duration r)),
      (''start_time'', t0), (''end_time'', t1), (''output'', output_file)]"

text \<open>Lines 175 to 201: metadata, clean-up and the successful result.\<close>

definition finish ::
  "StreamRecorder \<Rightarrow> pipeline_env \<Rightarrow> action list \<Rightarrow> action list \<times> outcome" where
  "finish r env acts =
     (let t0 = utcnow_start env; t1 = utcnow_end env;
          output_file = path_join (output_dir r) (stamp t0 @ ''.mp4'');
          metadata_file = path_join (output_dir r) (stamp t0 @ ''.json'')
      in (acts @ [Write_metadata metadata_file (metadata r t0 t1 output_file), Rmtree (mkdtemp env)],
          Returned \<lparr> success = True, file_path = Some output_file,
                     metadata_path = (if metadata_written env then Some metadata_file else None),
                     error = None, start_time = t0, end_time = Some t1 \<rparr>))"

text \<open>Lines 124 to 173: the stream-copy remux and, when it exits non-zero, the transcode.
  An exception of \<^verbatim>\<open>create_subprocess_exec\<close> is not caught and leaves \<^verbatim>\<open>record()\<close>.\<close>

definition remux_stage ::
  "StreamRecorder \<Rightarrow> pipeline_env \<Rightarrow> action list \<Rightarrow> action list \<times> outcome" where
  "remux_stage r env acts =
     (let t0 = utcnow_start env;
          temp_file = path_join (mkdtemp env) ''download.ts'';
          output_file = path_join (output_dir r) (stamp t0 @ ''.mp4'');
          acts1 = acts @ [Spawn (ff_cmd temp_file output_file)]
      in case remux env of
           Spawn_fails e \<Rightarrow> (acts1, Raised e)
         | Exit_code rc2 \<Rightarrow>
             if rc2 \<noteq> 0 then
               (let acts2 = acts1 @ [Spawn (trans_cmd r temp_file output_file)]
                in case transcode env of
                     Spawn_fails e \<Rightarrow> (acts2, Raised e)
                   | Exit_code rc3 \<Rightarrow>
                       if rc3 \<noteq> 0 then
                         (acts2 @ [Rmtree (mkdtemp env)],
                          Returned (failed (''ffmpeg transcode exited with '' @ str_int rc3) t0))
                       else finish r env acts2)
             else finish r env acts1)"

text \<open>\<^verbatim>\<open>StreamRecorder.record\<close> (named \<open>record_stream\<close> here, \<open>record\<close> being a keyword):
  the actions performed and how the call ends.\<close>

definition record_stream :: "StreamRecorder \<Rightarrow> pipeline_env \<Rightarrow> action list \<times> outcome" where
  "record_stream r env =
     (let t0 = utcnow_start env;
          temp_file = path_join (mkdtemp env) ''download.ts'';
          acts0 = [Spawn (yt_cmd r temp_file)]
      in case yt_spawn_error env of
           Some e \<Rightarrow> (acts0, Raised e)
         | None \<Rightarrow>
             (case read_loop (on_update r) (cancel_event r) (stdout_events env) of
                (acts, Loop_cancelled) \<Rightarrow>
                  (acts0 @ acts @ [Terminate, Wait_exit], Returned (failed ''Cancelled'' t0))
              | (acts, Loop_hangs) \<Rightarrow> (acts0 @ acts, Hangs)
              | (acts, Loop_raised e) \<Rightarrow>
                  (acts0 @ acts @ [Terminate, Wait_exit], Returned (failed e t0))
              | (acts, Loop_eof) \<Rightarrow>
                  (let rc = yt_returncode env; acts1 = acts0 @ acts @ [Wait_exit]
                   in if rc \<noteq> 0
                      then (acts1, Returned (failed (''yt-dlp exited with '' @ str_int rc) t0))
                      else remux_stage r env acts1)))"


section \<open>The scheduler (multirec/scheduler/scheduler.py)\<close>

text \<open>An \<^verbatim>\<open>asyncio.Task\<close> is identified by a handle; its state is kept in the
  scheduler state under that handle.\<close>

type_synonym handle = nat

record RecordingTask =
  url :: string
  quality :: string
  recorder :: "StreamRecorder option"
  future :: "handle option"
  result :: "RecordingResult option"

text \<open>The state of the task that runs \<^verbatim>\<open>_run_recorder\<close>: not done (\<open>Pending\<close>; \<open>Cancelling\<close>
  once \<^verbatim>\<open>cancel()\<close> was called on it), or done with a result, with an exception, or
  cancelled.\<close>

datatype fut = Pending | Cancelling | Finished RecordingResult | Failed string | Cancelled

fun is_done :: "fut \<Rightarrow> bool" where
  "is_done Pending = False"
| "is_done Cancelling = False"
| "is_done _ = True"

text \<open>\<^verbatim>\<open>Task.cancel()\<close>: a request on a task that is not done, nothing on a done one.\<close>

fun fut_cancel :: "fut \<Rightarrow> fut" where
  "fut_cancel Pending = Cancelling"
| "fut_cancel f = f"

text \<open>Where a coroutine \<^verbatim>\<open>_worker_loop\<close> is suspended: in \<^verbatim>\<open>asyncio.wait\<close> (line 65) or
  in \<^verbatim>\<open>asyncio.gather\<close> (line 85), each on the keys \<^verbatim>\<open>running\<close> had when it was
  called, or in \<^verbatim>\<open>asyncio.wait_for(self.queue.get(), timeout=0.5)\<close> (line 73); or it was
  just entered, has returned, or was left by an exception.\<close>

datatype worker_pc =
    Entered
  | Wait_done "handle list"
  | Wait_queue
  | Wait_gather "handle list"
  | Loop_returned
  | Loop_crashed string

text \<open>
  The fields of \<^verbatim>\<open>Scheduler\<close>, then the state the model adds: the tasks created so far
  (\<open>futures\<close>, \<open>next_handle\<close>), the position of every worker loop, one per call of
  \<^verbatim>\<open>start\<close> in the order of the calls (\<open>loops\<close>), and \<open>collected\<close>, the
  \<^verbatim>\<open>RecordingTask\<close> objects popped from \<^verbatim>\<open>running\<close> in the order they were popped, as the
  loop left them. \<^verbatim>\<open>running\<close> is a dict: an association list with distinct keys in
  insertion order.
\<close>

record Scheduler =
  config :: Config
  download_dir :: string
  queue :: "RecordingTask list"
  running :: "(handle \<times> RecordingTask) list"
  cancelled :: bool
  futures :: "(handle \<times> fut) list"
  next_handle :: handle
  loops :: "worker_pc list"
  collected :: "RecordingTask list"

definition Scheduler_init :: "Config \<Rightarrow> string \<Rightarrow> Scheduler" where
  "Scheduler_init cfg dir =
     \<lparr> config = cfg, download_dir = dir, queue = [], running = [], cancelled = False,
       futures = [], next_handle = 0, loops = [], collected = [] \<rparr>"

definition new_task :: "string \<Rightarrow> string \<Rightarrow> RecordingTask" where
  "new_task u q = \<lparr> url = u, quality = q, recorder = None, future = None, result = None \<rparr>"

text \<open>\<^verbatim>\<open>add_recording\<close>: the queue is unbounded, so \<^verbatim>\<open>put\<close> appends at once.\<close>

definition add_recording :: "string \<Rightarrow> string \<Rightarrow> Scheduler \<Rightarrow> Scheduler" where
  "add_recording u q s = s\<lparr>queue := queue s @ [new_task u q]\<rparr>"

text \<open>\<^verbatim>\<open>shutdown\<close>\<close>

definition shutdown :: "Scheduler \<Rightarrow> Scheduler" where
  "shutdown s = s\<lparr>cancelled := True\<rparr>"

text \<open>\<^verbatim>\<open>_run_recorder\<close> up to \<^verbatim>\<open>task.recorder = recorder\<close> (lines 51 to 57).\<close>

definition run_recorder_start :: "Scheduler \<Rightarrow> RecordingTask \<Rightarrow> RecordingTask" where
  "run_recorder_start s task =
     task\<lparr>recorder := Some (StreamRecorder_init (url task) (download_dir s)
                              (segment_duration_min (config s)) (quality task) None 23)\<rparr>"

text \<open>Loop \<open>i\<close> suspends, or ends, at the position \<open>pc\<close>.\<close>

definition suspend :: "nat \<Rightarrow> worker_pc \<Rightarrow> Scheduler \<Rightarrow> Scheduler" where
  "suspend i pc s = s\<lparr>loops := (loops s)[i := pc]\<rparr>"

text \<open>The test of the inner \<^verbatim>\<open>while\<close> (line 64) by loop \<open>i\<close>, up to its next suspension.
  \<^verbatim>\<open>asyncio.wait\<close> raises ValueError on an empty set.\<close>

definition limit_check :: "nat \<Rightarrow> Scheduler \<Rightarrow> Scheduler" where
  "limit_check i s =
     (if int (length (running s)) \<ge> concurrency_limit (config s)
      then (if running s = [] then suspend i (Loop_crashed ''Set of Tasks/Futures is empty.'') s
            else suspend i (Wait_done (map fst (running s))) s)
      else suspend i Wait_queue s)"

text \<open>The body of the shutdown loop for one entry (lines 82 to 84), and the loop.\<close>

definition cancel_task :: "RecordingTask \<Rightarrow> RecordingTask" where
  "cancel_task t = t\<lparr>recorder := map_option cancel (recorder t)\<rparr>"

definition cancel_running :: "Scheduler \<Rightarrow> Scheduler" where
  "cancel_running s =
     s\<lparr>running := map (\<lambda>(h, t). (h, cancel_task t)) (running s),
       futures := map (\<lambda>(h, f). (h, if h \<in> set (map fst (running s)) then fut_cancel f else f))
                      (futures s)\<rparr>"

text \<open>The test of the outer \<^verbatim>\<open>while\<close> (line 62) by loop \<open>i\<close>, up to its next suspension.\<close>

definition loop_head :: "nat \<Rightarrow> Scheduler \<Rightarrow> Scheduler" where
  "loop_head i s =
     (if cancelled s then suspend i (Wait_gather (map fst (running s))) (cancel_running s)
      else limit_check i s)"

text \<open>The \<^verbatim>\<open>for d in done\<close> loop (lines 68 to 70), then the inner test again.
  \<^verbatim>\<open>self.running.pop(d)\<close> raises KeyError when another loop has popped \<open>d\<close>, and
  \<^verbatim>\<open>d.result()\<close> raises when the task ended with an exception or was cancelled.\<close>

fun collect :: "nat \<Rightarrow> handle list \<Rightarrow> Scheduler \<Rightarrow> Scheduler" where
  "collect i [] s = limit_check i s"
| "collect i (d # ds) s =
     (case map_of (running s) d of
        None \<Rightarrow> suspend i (Loop_crashed ''KeyError'') s
      | Some rec_task \<Rightarrow>
          (let s' = s\<lparr>running := AList.delete d (running s)\<rparr>
           in case map_of (futures s) d of
                Some (Finished r) \<Rightarrow>
                  collect i ds (s'\<lparr>collected := collected s' @ [rec_task\<lparr>result := Some r\<rparr>]\<rparr>)
              | Some (Failed e) \<Rightarrow>
                  suspend i (Loop_crashed e) (s'\<lparr>collected := collected s' @ [rec_task]\<rparr>)
              | Some Cancelled \<Rightarrow>
                  suspend i (Loop_crashed ''CancelledError'')
                    (s'\<lparr>collected := collected s' @ [rec_task]\<rparr>)
              | _ \<Rightarrow>
                  suspend i (Loop_crashed ''InvalidStateError'')
                    (s'\<lparr>collected := collected s' @ [rec_task]\<rparr>)))"

text \<open>\<^verbatim>\<open>Task.done()\<close> for the task of a handle, and the done ones among the tasks a loop
  waits for.\<close>

definition task_done :: "Scheduler \<Rightarrow> handle \<Rightarrow> bool" where
  "task_done s h = (case map_of (futures s) h of Some f \<Rightarrow> is_done f | None \<Rightarrow> False)"

definition done_handles :: "Scheduler \<Rightarrow> handle list \<Rightarrow> handle list" where
  "done_handles s hs = filter (task_done s) hs"

text \<open>Lines 72 to 79 by loop \<open>i\<close>, then the outer test: the timeout with an empty queue,
  or the head of the queue launched as a new task.\<close>

definition dequeue :: "nat \<Rightarrow> Scheduler \<Rightarrow> Scheduler" where
  "dequeue i s =
     (case queue s of
        [] \<Rightarrow> loop_head i s
      | next_task # waiting \<Rightarrow>
          (let fut = next_handle s
           in loop_head i (s\<lparr>queue := waiting,
                             running := AList.update fut next_task (running s),
                             futures := AList.update fut Pending (futures s),
                             next_handle := Suc fut\<rparr>)))"

text \<open>
  What can happen to a scheduler, one atomic block of the event loop at a time:
  \<^item> \<open>Ev_add\<close>, \<open>Ev_start\<close>, \<open>Ev_shutdown\<close>: a caller runs \<^verbatim>\<open>add_recording\<close>, \<^verbatim>\<open>start\<close> or
    \<^verbatim>\<open>shutdown\<close>. \<^verbatim>\<open>start\<close> has no guard: every call clears the flag and enters one more
    worker loop, whatever the earlier loops do;
  \<^item> \<open>Ev_task_start h\<close>: task \<open>h\<close> begins \<^verbatim>\<open>_run_recorder\<close>; \<open>Ev_task_end h f\<close>: it ends in
    the done state \<open>f\<close> (cancelled only after a cancel request; a task that never began
    can only end cancelled);
  \<^item> \<open>Ev_worker i ds\<close>: worker loop \<open>i\<close> is resumed and runs to its next suspension;
    \<open>ds\<close> is the order in which the set \<^verbatim>\<open>done\<close> is iterated.
  An event that cannot happen in the state leaves it unchanged.
\<close>

datatype event =
    Ev_add string string
  | Ev_start
  | Ev_shutdown
  | Ev_task_start handle
  | Ev_task_end handle fut
  | Ev_worker nat "handle list"

fun loop_active :: "worker_pc \<Rightarrow> bool" where
  "loop_active (Wait_done hs) = True"
| "loop_active Wait_queue = True"
| "loop_active (Wait_gather hs) = True"
| "loop_active _ = False"

definition task_start :: "handle \<Rightarrow> Scheduler \<Rightarrow> Scheduler" where
  "task_start h s =
     (case map_of (running s) h of
        None \<Rightarrow> s
      | Some t \<Rightarrow>
          if recorder t = None \<and> map_of (futures s) h = Some Pending
          then s\<lparr>running := AList.update h (run_recorder_start s t) (running s)\<rparr>
          else s)"

definition task_end :: "handle \<Rightarrow> fut \<Rightarrow> Scheduler \<Rightarrow> Scheduler" where
  "task_end h f s =
     (case (map_of (running s) h, map_of (futures s) h) of
        (Some t, Some cur) \<Rightarrow>
          if \<not> is_done cur \<and> is_done f \<and> (f = Cancelled \<longrightarrow> cur = Cancelling)
             \<and> (recorder t = None \<longrightarrow> f = Cancelled)
          then s\<lparr>futures := AList.update h f (futures s)\<rparr>
          else s
      | _ \<Rightarrow> s)"

text \<open>Loop \<open>i\<close> resumed where it is suspended; a loop that does not exist, or that has
  ended, does nothing.\<close>

definition worker_resume :: "nat \<Rightarrow> handle list \<Rightarrow> Scheduler \<Rightarrow> Scheduler" where
  "worker_resume i ds s =
     (if i < length (loops s)
      then (case loops s ! i of
              Wait_done hs \<Rightarrow>
                if ds \<noteq> [] \<and> distinct ds \<and> set ds = set (done_handles s hs)
                then collect i ds s else s
            | Wait_queue \<Rightarrow> dequeue i s
            | Wait_gather hs \<Rightarrow>
                if list_all (task_done s) hs then suspend i Loop_returned s else s
            | _ \<Rightarrow> s)
      else s)"

text \<open>\<^verbatim>\<open>start\<close> (lines 87 to 89): the flag is cleared and a new loop runs to its first
  suspension.\<close>

definition start :: "Scheduler \<Rightarrow> Scheduler" where
  "start s = loop_head (length (loops s)) (s\<lparr>cancelled := False, loops := loops s @ [Entered]\<rparr>)"

fun step :: "Scheduler \<Rightarrow> event \<Rightarrow> Scheduler" where
  "step s (Ev_add u q) = add_recording u q s"
| "step s Ev_start = start s"
| "step s Ev_shutdown = shutdown s"
| "step s (Ev_task_start h) = task_start h s"
| "step s (Ev_task_end h f) = task_end h f s"
| "step s (Ev_worker i ds) = worker_resume i ds s"

definition run :: "Scheduler \<Rightarrow> event list \<Rightarrow> Scheduler" where
  "run s evs = foldl step s evs"


section \<open>Predicates used in the statements\<close>

text \<open>The concurrency bound. While a single loop is active, a loop that waits for the
  queue has just left the inner loop, so a slot is free.\<close>

definition within_limit :: "Scheduler \<Rightarrow> bool" where
  "within_limit s = (int (length (running s)) \<le> concurrency_limit (config s))"

definition slot_free :: "Scheduler \<Rightarrow> bool" where
  "slot_free s = (int (length (running s)) < concurrency_limit (config s))"

definition gate_inv :: "Scheduler \<Rightarrow> bool" where
  "gate_inv s =
     (within_limit s \<and> length (filter loop_active (loops s)) \<le> 1 \<and>
      (if Wait_queue \<in> set (loops s) then slot_free s else True))"

text \<open>\<^verbatim>\<open>start\<close> is never called while a worker loop is active: every call finds the
  earlier loops returned or left by an exception.\<close>

fun is_start :: "event \<Rightarrow> bool" where
  "is_start Ev_start = True"
| "is_start _ = False"

fun one_loop_at_a_time :: "Scheduler \<Rightarrow> event list \<Rightarrow> bool" where
  "one_loop_at_a_time s [] = True"
| "one_loop_at_a_time s (ev # evs) =
     ((if is_start ev then list_all (\<lambda>w. \<not> loop_active w) (loops s) else True) \<and>
      one_loop_at_a_time (step s ev) evs)"

text \<open>\<^verbatim>\<open>running\<close> is a dict: no key occurs twice, so its length is \<^verbatim>\<open>len(self.running)\<close>.\<close>

definition keys_distinct :: "Scheduler \<Rightarrow> bool" where
  "keys_distinct s = distinct (map fst (running s))"

text \<open>Submissions are the \<^verbatim>\<open>add_recording\<close> calls of an event sequence.\<close>

fun is_add :: "event \<Rightarrow> bool" where
  "is_add (Ev_add u q) = True"
| "is_add _ = False"

definition submitted :: "event list \<Rightarrow> nat" where
  "submitted evs = length (filter is_add evs)"

text \<open>The same scheduler with other retry settings in its configuration.\<close>

definition set_retry :: "int \<Rightarrow> real \<Rightarrow> Scheduler \<Rightarrow> Scheduler" where
  "set_retry m b s =
     s\<lparr>config := (config s)\<lparr>retry_max_attempts := m, backoff_base_seconds := b\<rparr>\<rparr>"

text \<open>What the shutdown loop leaves behind: the recorder of a job, where it has one, has
  its event set, and no task is left pending without a cancellation request.\<close>

definition recorder_flagged :: "RecordingTask \<Rightarrow> bool" where
  "recorder_flagged t = (case recorder t of None \<Rightarrow> True | Some r \<Rightarrow> cancel_event r)"

definition not_pending :: "Scheduler \<Rightarrow> handle \<Rightarrow> bool" where
  "not_pending s h = (map_of (futures s) h \<noteq> Some Pending)"

text \<open>A line that \<^verbatim>\<open>record()\<close> reads and handles without an exception, and the two
  paths \<^verbatim>\<open>record()\<close> computes.\<close>

definition line_ok :: "on_update_fn option \<Rightarrow> string \<Rightarrow> bool" where
  "line_ok cb line =
     (line \<noteq> [] \<and> (case handle_line cb line of Inl _ \<Rightarrow> False | Inr _ \<Rightarrow> True))"

definition temp_file_of :: "pipeline_env \<Rightarrow> string" where
  "temp_file_of env = path_join (mkdtemp env) ''download.ts''"

definition output_file_of :: "StreamRecorder \<Rightarrow> pipeline_env \<Rightarrow> string" where
  "output_file_of r env = path_join (output_dir r) (stamp (utcnow_start env) @ ''.mp4'')"


section \<open>Concrete inputs\<close>

text \<open>\<^verbatim>\<open>Config(concurrency_limit=2)\<close> as in tests/test_scheduler.py, with the other fields
  at their defaults for the home directory \<^verbatim>\<open>/home/u\<close>.\<close>

definition test_config :: Config where
  "test_config =
     \<lparr> Config.download_dir = ''/home/u/multirec_downloads'', db_path = ''/home/u/.multirec.db'',
       concurrency_limit = 2, segment_duration_min = 30, retry_max_attempts = 5,
       backoff_base_seconds = 5 \<rparr>"

text \<open>Five submissions, then the worker loop started: it waits for the queue.\<close>

definition five_submitted :: "event list" where
  "five_submitted =
     [Ev_add ''https://example.com/0'' ''best'', Ev_add ''https://example.com/1'' ''best'',
      Ev_add ''https://example.com/2'' ''best'', Ev_add ''https://example.com/3'' ''best'',
      Ev_add ''https://example.com/4'' ''best'', Ev_start]"

text \<open>One job under \<^verbatim>\<open>retry_max_attempts = 3\<close>, \<^verbatim>\<open>backoff_base_seconds = 2\<close> and a limit of
  one: it is launched, its download exits with code 1, and the worker loop collects it.\<close>

definition retry_config :: Config where
  "retry_config =
     \<lparr> Config.download_dir = ''/home/u/multirec_downloads'', db_path = ''/home/u/.multirec.db'',
       concurrency_limit = 1, segment_duration_min = 30, retry_max_attempts = 3,
       backoff_base_seconds = 2 \<rparr>"

definition failing_result :: RecordingResult where
  "failing_result = failed ''yt-dlp exited with 1'' ''2024-01-02T03:04:05''"

definition exits_with_1 :: pipeline_env where
  "exits_with_1 =
     \<lparr> utcnow_start = ''2024-01-02T03:04:05'', utcnow_end = ''2024-01-02T03:04:06'',
       mkdtemp = ''/tmp/multirec_a'', yt_spawn_error = None, stdout_events = [Read (Returns [])],
       yt_returncode = 1, remux = Exit_code 0, transcode = Exit_code 0, metadata_written = True \<rparr>"

definition fails_once :: "event list" where
  "fails_once =
     [Ev_add ''https://example.com/live'' ''best'', Ev_start, Ev_worker 0 [],
      Ev_task_start 0, Ev_task_end 0 (Finished failing_result), Ev_worker 0 [0]]"

definition live_recorder :: StreamRecorder where
  "live_recorder = StreamRecorder_init ''https://example.com/live'' ''/rec'' 30 ''best'' None 23"

definition live_task :: RecordingTask where
  "live_task =
     \<lparr> url = ''https://example.com/live'', quality = ''best'', recorder = Some live_recorder,
       future = None, result = None \<rparr>"

definition before_collect :: Scheduler where
  "before_collect = run (Scheduler_init retry_config ''/rec'') (butlast fails_once)"

definition after_failure :: Scheduler where
  "after_failure = run (Scheduler_init retry_config ''/rec'') fails_once"

text \<open>\<^verbatim>\<open>shutdown()\<close> called while two jobs run and three wait (limit 2).\<close>

definition scenario_e :: "event list" where
  "scenario_e =
     five_submitted @ [Ev_worker 0 [], Ev_worker 0 [], Ev_task_start 0, Ev_task_start 1, Ev_shutdown]"

definition shutdown_while_busy :: Scheduler where
  "shutdown_while_busy = run (Scheduler_init test_config ''/tmp'') scenario_e"

text \<open>After that \<^verbatim>\<open>shutdown()\<close>, the first task ends and the worker loop is resumed twice:
  it collects the task and waits for the queue, then launches the third job, finds the
  flag set, cancels the two running tasks and waits in \<^verbatim>\<open>gather\<close>. Then both tasks end
  as cancelled.\<close>

definition gather_pending :: Scheduler where
  "gather_pending =
     run shutdown_while_busy
       [Ev_task_end 0 (Finished failing_result), Ev_worker 0 [0], Ev_worker 0 []]"

definition gather_done :: Scheduler where
  "gather_done = run gather_pending [Ev_task_end 1 Cancelled, Ev_task_end 2 Cancelled]"

text \<open>Two submissions and two calls of \<^verbatim>\<open>start\<close> under a limit of one, then each loop
  resumed once.\<close>

definition two_loops :: "event list" where
  "two_loops =
     [Ev_add ''https://example.com/0'' ''best'', Ev_add ''https://example.com/1'' ''best'',
      Ev_start, Ev_start, Ev_worker 0 [], Ev_worker 1 []]"

text \<open>Keyword arguments for \<^verbatim>\<open>Config\<close>: the limit of tests/test_config.py, a limit of 0,
  and retry settings outside the bounds the specification declares.\<close>

definition limit_7 :: Config_kwargs where
  "limit_7 = no_kwargs\<lparr>kw_concurrency_limit := Some 7\<rparr>"

definition limit_0 :: Config_kwargs where
  "limit_0 = no_kwargs\<lparr>kw_concurrency_limit := Some 0\<rparr>"

definition unchecked_retry :: Config_kwargs where
  "unchecked_retry =
     no_kwargs\<lparr>kw_retry_max_attempts := Some 0, kw_backoff_base_seconds := Some (- 1)\<rparr>"

text \<open>Environments of \<^verbatim>\<open>record()\<close>: a download that prints nothing and exits with 0, with
  a remux that succeeds; then variations of it.\<close>

definition quiet_env :: pipeline_env where
  "quiet_env =
     \<lparr> utcnow_start = ''2024-01-02T03:04:05'', utcnow_end = ''2024-01-02T04:04:05'',
       mkdtemp = ''/tmp/multirec_a'', yt_spawn_error = None, stdout_events = [Read (Returns [])],
       yt_returncode = 0, remux = Exit_code 0, transcode = Exit_code 0, metadata_written = True \<rparr>"

definition cancelled_during_last_read :: pipeline_env where
  "cancelled_during_last_read = quiet_env\<lparr>stdout_events := [Cancel_called, Read (Returns [])]\<rparr>"

definition cancelled_during_a_read :: pipeline_env where
  "cancelled_during_a_read =
     quiet_env\<lparr>stdout_events := [Read (Returns ''frame=  1''), Cancel_called,
                                  Read (Returns ''frame=  2''), Read (Returns [])]\<rparr>"

definition remux_fails :: pipeline_env where
  "remux_fails = quiet_env\<lparr>remux := Exit_code 1\<rparr>"

definition both_fail :: pipeline_env where
  "both_fail = quiet_env\<lparr>remux := Exit_code 1, transcode := Exit_code 1\<rparr>"

text \<open>A recorder with a callback that never raises, and a progress line whose size text
  is not a number, beside the same line with a size that is one.\<close>

definition progress_recorder :: StreamRecorder where
  "progress_recorder =
     StreamRecorder_init ''https://example.com/live'' ''/rec'' 30 ''best'' (Some (\<lambda>msg. None)) 23"

definition bad_size_line :: string where
  "bad_size_line = ''[download]  42.0% of 1.2.3MiB at 1.00MiB/s ETA 00:10'' @ [CHR 0x0A]"

definition good_size_line :: string where
  "good_size_line = ''[download]  42.0% of 1.23MiB at 1.00MiB/s ETA 00:10'' @ [CHR 0x0A]"

definition bad_progress :: pipeline_env where
  "bad_progress = quiet_env\<lparr>stdout_events := [Read (Returns bad_size_line), Read (Returns [])]\<rparr>"

definition good_progress :: pipeline_env where
  "good_progress = quiet_env\<lparr>stdout_events := [Read (Returns good_size_line), Read (Returns [])]\<rparr>"


section \<open>The concurrency limit\<close>

lemma length_update_present:
  "map_of al k = Some v \<Longrightarrow> length (AList.update k w al) = length al"
  by (induction al) (auto split: if_splits)

lemma length_update_le: "length (AList.update k w al) \<le> Suc (length al)"
  by (induction al) auto

lemma suspend_sel [simp]:
  "config (suspend i pc s) = config s" "download_dir (suspend i pc s) = download_dir s"
  "queue (suspend i pc s) = queue s" "running (suspend i pc s) = running s"
  "cancelled (suspend i pc s) = cancelled s" "futures (suspend i pc s) = futures s"
  "next_handle (suspend i pc s) = next_handle s" "collected (suspend i pc s) = collected s"
  "loops (suspend i pc s) = (loops s)[i := pc]"
  by (simp_all add: suspend_def)

lemma solo_update:
  assumes "length (filter loop_active xs) \<le> 1" and "i < length xs" and "loop_active (xs ! i)"
  shows "length (filter loop_active (xs[i := pc])) \<le> 1"
    and "Wait_queue \<in> set (xs[i := pc]) \<Longrightarrow> pc = Wait_queue"
proof -
  have xs: "xs = take i xs @ xs ! i # drop (Suc i) xs"
    using assms(2) by (rule id_take_nth_drop)
  have upd: "xs[i := pc] = take i xs @ pc # drop (Suc i) xs"
    using assms(2) by (rule upd_conv_take_nth_drop)
  have "length (filter loop_active (take i xs @ xs ! i # drop (Suc i) xs)) \<le> 1"
    using assms(1) xs by simp
  then have e: "filter loop_active (take i xs) = []" "filter loop_active (drop (Suc i) xs) = []"
    using assms(3) by simp_all
  show "length (filter loop_active (xs[i := pc])) \<le> 1"
    unfolding upd using e by simp
  assume "Wait_queue \<in> set (xs[i := pc])"
  then have "Wait_queue \<in> set (take i xs) \<or> Wait_queue = pc \<or> Wait_queue \<in> set (drop (Suc i) xs)"
    unfolding upd by auto
  moreover have "Wait_queue \<notin> set (take i xs)" "Wait_queue \<notin> set (drop (Suc i) xs)"
    using e by (auto simp: filter_empty_conv)
  ultimately show "pc = Wait_queue" by auto
qed

lemma gate_after:
  assumes "gate_inv s" and "i < length (loops s)" and "loop_active (loops s ! i)"
    and "loops s' = (loops s)[i := pc]" and "within_limit s'"
    and "pc = Wait_queue \<Longrightarrow> slot_free s'"
  shows "gate_inv s'"
proof -
  have one: "length (filter loop_active (loops s)) \<le> 1"
    using assms(1) by (simp add: gate_inv_def)
  show ?thesis
    using solo_update[OF one assms(2,3), of pc] assms(4,5,6)
    by (auto simp: gate_inv_def)
qed

lemma limit_check_shape:
  "\<exists>pc. limit_check i s = suspend i pc s \<and> (pc = Wait_queue \<longrightarrow> slot_free s)"
  by (auto simp: limit_check_def slot_free_def)

lemma loop_head_shape:
  "within_limit s \<Longrightarrow>
   \<exists>pc. loops (loop_head i s) = (loops s)[i := pc] \<and> within_limit (loop_head i s) \<and>
        (pc = Wait_queue \<longrightarrow> slot_free (loop_head i s))"
proof (cases "cancelled s")
  case True
  assume "within_limit s"
  then have "within_limit (loop_head i s)"
    using True by (simp add: loop_head_def within_limit_def cancel_running_def)
  moreover have "loops (loop_head i s) = (loops s)[i := Wait_gather (map fst (running s))]"
    using True by (simp add: loop_head_def cancel_running_def)
  ultimately show ?thesis by blast
next
  case False
  assume w: "within_limit s"
  obtain pc where pc: "limit_check i s = suspend i pc s" "pc = Wait_queue \<longrightarrow> slot_free s"
    using limit_check_shape by blast
  have "loops (loop_head i s) = (loops s)[i := pc]" "within_limit (loop_head i s)"
       "pc = Wait_queue \<longrightarrow> slot_free (loop_head i s)"
    using False pc w by (simp_all add: loop_head_def within_limit_def slot_free_def)
  then show ?thesis by blast
qed

lemma collect_shape:
  "within_limit s \<Longrightarrow>
   \<exists>pc. loops (collect i ds s) = (loops s)[i := pc] \<and> within_limit (collect i ds s) \<and>
        (pc = Wait_queue \<longrightarrow> slot_free (collect i ds s))"
proof (induction ds arbitrary: s)
  case Nil
  obtain pc where pc: "limit_check i s = suspend i pc s" "pc = Wait_queue \<longrightarrow> slot_free s"
    using limit_check_shape by blast
  have "loops (collect i [] s) = (loops s)[i := pc]" "within_limit (collect i [] s)"
       "pc = Wait_queue \<longrightarrow> slot_free (collect i [] s)"
    using pc Nil by (simp_all add: within_limit_def slot_free_def)
  then show ?case by blast
next
  case (Cons d ds)
  have le: "length (AList.delete d (running s)) \<le> length (running s)"
    by (rule length_delete_le)
  let ?s' = "s\<lparr>running := AList.delete d (running s)\<rparr>"
  have w: "within_limit ?s'"
    using Cons.prems le by (simp add: within_limit_def)
  have crash: "\<exists>pc. loops (suspend i (Loop_crashed e) x) = (loops s)[i := pc] \<and>
                    within_limit (suspend i (Loop_crashed e) x) \<and>
                    (pc = Wait_queue \<longrightarrow> slot_free (suspend i (Loop_crashed e) x))"
    if "within_limit x" "loops x = loops s" for e x
    using that by (intro exI[of _ "Loop_crashed e"]) (simp add: within_limit_def)
  show ?case
  proof (cases "map_of (running s) d")
    case None
    then show ?thesis using crash[OF Cons.prems, of "''KeyError''"] by simp
  next
    case (Some t)
    note t = this
    let ?c = "?s'\<lparr>collected := collected ?s' @ [t]\<rparr>"
    have wc: "within_limit ?c" "loops ?c = loops s" using w by (simp_all add: within_limit_def)
    show ?thesis
    proof (cases "map_of (futures s) d")
      case None
      then show ?thesis using t crash[OF wc, of "''InvalidStateError''"] by simp
    next
      case (Some f)
      note f = this
      show ?thesis
      proof (cases f)
        case (Finished r)
        let ?n = "?s'\<lparr>collected := collected ?s' @ [t\<lparr>result := Some r\<rparr>]\<rparr>"
        have "within_limit ?n" using w by (simp add: within_limit_def)
        from Cons.IH[OF this] show ?thesis using t f Finished by simp
      next
        case Pending
        then show ?thesis using t f crash[OF wc, of "''InvalidStateError''"] by simp
      next
        case Cancelling
        then show ?thesis using t f crash[OF wc, of "''InvalidStateError''"] by simp
      next
        case (Failed e)
        then show ?thesis using t f crash[OF wc, of e] by simp
      next
        case Cancelled
        then show ?thesis using t f crash[OF wc, of "''CancelledError''"] by simp
      qed
    qed
  qed
qed

lemma dequeue_shape:
  "within_limit s \<Longrightarrow> slot_free s \<Longrightarrow>
   \<exists>pc. loops (dequeue i s) = (loops s)[i := pc] \<and> within_limit (dequeue i s) \<and>
        (pc = Wait_queue \<longrightarrow> slot_free (dequeue i s))"
proof (cases "queue s")
  case Nil
  assume "within_limit s"
  then show ?thesis using Nil loop_head_shape[of s i] by (simp add: dequeue_def)
next
  case (Cons t ts)
  assume free: "slot_free s"
  let ?s' = "s\<lparr>queue := ts, running := AList.update (next_handle s) t (running s),
               futures := AList.update (next_handle s) Pending (futures s),
               next_handle := Suc (next_handle s)\<rparr>"
  have "length (AList.update (next_handle s) t (running s)) \<le> Suc (length (running s))"
    by (rule length_update_le)
  then have "within_limit ?s'" using free by (simp add: within_limit_def slot_free_def)
  from loop_head_shape[OF this, of i] show ?thesis using Cons by (simp add: dequeue_def Let_def)
qed

lemma worker_resume_gate: "gate_inv s \<Longrightarrow> gate_inv (worker_resume i ds s)"
proof (cases "i < length (loops s)")
  case False
  assume "gate_inv s"
  then show ?thesis using False by (simp add: worker_resume_def)
next
  case True
  assume g: "gate_inv s"
  then have w: "within_limit s" by (simp add: gate_inv_def)
  show ?thesis
  proof (cases "loops s ! i")
    case (Wait_done hs)
    show ?thesis
    proof (cases "ds \<noteq> [] \<and> distinct ds \<and> set ds = set (done_handles s hs)")
      case False
      then show ?thesis using g True Wait_done by (auto simp: worker_resume_def)
    next
      case ok: True
      obtain pc where "loops (collect i ds s) = (loops s)[i := pc]" "within_limit (collect i ds s)"
        "pc = Wait_queue \<longrightarrow> slot_free (collect i ds s)"
        using collect_shape[OF w, of i ds] by blast
      then have "gate_inv (collect i ds s)"
        using gate_after[OF g True, of "collect i ds s" pc] Wait_done by simp
      then show ?thesis using True Wait_done ok by (simp add: worker_resume_def)
    qed
  next
    case Wait_queue
    then have "Wait_queue \<in> set (loops s)" using True by (metis nth_mem)
    then have free: "slot_free s" using g by (simp add: gate_inv_def)
    obtain pc where "loops (dequeue i s) = (loops s)[i := pc]" "within_limit (dequeue i s)"
      "pc = Wait_queue \<longrightarrow> slot_free (dequeue i s)"
      using dequeue_shape[OF w free, of i] by blast
    then have "gate_inv (dequeue i s)"
      using gate_after[OF g True, of "dequeue i s" pc] Wait_queue by simp
    then show ?thesis using True Wait_queue by (simp add: worker_resume_def)
  next
    case (Wait_gather hs)
    have "gate_inv (suspend i Loop_returned s)"
      using gate_after[OF g True, of "suspend i Loop_returned s" Loop_returned] Wait_gather w
      by (simp add: within_limit_def)
    then show ?thesis using g True Wait_gather by (simp add: worker_resume_def)
  qed (use g True in \<open>simp_all add: worker_resume_def\<close>)
qed

lemma start_gate:
  assumes "within_limit s" and "list_all (\<lambda>w. \<not> loop_active w) (loops s)"
  shows "gate_inv (start s)"
proof -
  let ?s0 = "s\<lparr>cancelled := False, loops := loops s @ [Entered]\<rparr>"
  have "within_limit ?s0" using assms(1) by (simp add: within_limit_def)
  then obtain pc where pc: "loops (start s) = (loops ?s0)[length (loops s) := pc]"
    "within_limit (start s)" "pc = Wait_queue \<longrightarrow> slot_free (start s)"
    using loop_head_shape[of ?s0 "length (loops s)"] by (auto simp: start_def)
  have l: "loops (start s) = loops s @ [pc]" using pc(1) by simp
  have idle: "filter loop_active (loops s) = []" "Wait_queue \<notin> set (loops s)"
    using assms(2) by (auto simp: list_all_iff filter_empty_conv)
  show ?thesis using l idle pc(2,3) by (auto simp: gate_inv_def)
qed

lemma task_start_gate: "gate_inv s \<Longrightarrow> gate_inv (task_start h s)"
  by (auto simp: task_start_def gate_inv_def within_limit_def slot_free_def length_update_present
           split: option.splits)

lemma task_end_gate: "gate_inv s \<Longrightarrow> gate_inv (task_end h f s)"
  by (auto simp: task_end_def gate_inv_def within_limit_def slot_free_def split: option.splits)

lemma step_gate:
  "gate_inv s \<Longrightarrow> (is_start ev \<Longrightarrow> list_all (\<lambda>w. \<not> loop_active w) (loops s)) \<Longrightarrow>
   gate_inv (step s ev)"
proof (cases ev)
  case (Ev_add u q)
  assume "gate_inv s"
  then show ?thesis using Ev_add
    by (auto simp: add_recording_def gate_inv_def within_limit_def slot_free_def split: if_splits)
next
  case Ev_start
  assume "gate_inv s" and "is_start ev \<Longrightarrow> list_all (\<lambda>w. \<not> loop_active w) (loops s)"
  then show ?thesis using Ev_start start_gate[of s] by (simp add: gate_inv_def)
next
  case Ev_shutdown
  assume "gate_inv s"
  then show ?thesis using Ev_shutdown
    by (auto simp: shutdown_def gate_inv_def within_limit_def slot_free_def split: if_splits)
next
  case (Ev_task_start h)
  assume "gate_inv s"
  then show ?thesis using Ev_task_start by (simp add: task_start_gate)
next
  case (Ev_task_end h f)
  assume "gate_inv s"
  then show ?thesis using Ev_task_end by (simp add: task_end_gate)
next
  case (Ev_worker i ds)
  assume "gate_inv s"
  then show ?thesis using Ev_worker by (simp add: worker_resume_gate)
qed

lemma run_gate: "gate_inv s \<Longrightarrow> one_loop_at_a_time s evs \<Longrightarrow> gate_inv (run s evs)"
  unfolding run_def
proof (induction evs arbitrary: s)
  case Nil
  then show ?case by simp
next
  case (Cons ev evs)
  have "gate_inv (step s ev)" using Cons.prems by (intro step_gate) (simp_all split: if_splits)
  then show ?case using Cons.IH[of "step s ev"] Cons.prems by simp
qed

lemma limit_check_config: "config (limit_check i s) = config s"
  by (simp add: limit_check_def)

lemma loop_head_config: "config (loop_head i s) = config s"
  by (simp add: loop_head_def limit_check_def cancel_running_def)

lemma collect_config: "config (collect i ds s) = config s"
  by (induction ds arbitrary: s)
     (auto simp: limit_check_config Let_def split: option.splits fut.splits)

lemma dequeue_config: "config (dequeue i s) = config s"
  by (simp add: dequeue_def loop_head_config Let_def split: list.splits)

lemma worker_resume_config: "config (worker_resume i ds s) = config s"
  by (simp add: worker_resume_def collect_config dequeue_config split: worker_pc.splits)

lemma step_config: "config (step s ev) = config s"
  by (cases ev)
     (auto simp: add_recording_def shutdown_def start_def loop_head_config worker_resume_config
                 task_start_def task_end_def split: option.splits)

lemma run_config: "config (run s evs) = config s"
  unfolding run_def by (induction evs arbitrary: s) (simp_all add: step_config)

lemma init_gate: "0 \<le> concurrency_limit cfg \<Longrightarrow> gate_inv (Scheduler_init cfg dir)"
  by (simp add: gate_inv_def within_limit_def Scheduler_init_def)

lemma limit_check_next_handle: "next_handle (limit_check i s) = next_handle s"
  by (simp add: limit_check_def)

lemma loop_head_next_handle: "next_handle (loop_head i s) = next_handle s"
  by (simp add: loop_head_def limit_check_def cancel_running_def)

lemma collect_next_handle: "next_handle (collect i ds s) = next_handle s"
  by (induction ds arbitrary: s)
     (auto simp: limit_check_def Let_def split: option.splits fut.splits)

lemma step_launch_only_from_queue_wait:
  "next_handle (step s ev) \<noteq> next_handle s \<Longrightarrow> Wait_queue \<in> set (loops s)"
proof (cases ev)
  case (Ev_worker i ds)
  assume n: "next_handle (step s ev) \<noteq> next_handle s"
  then have i: "i < length (loops s)"
    using Ev_worker by (auto simp: worker_resume_def split: if_splits)
  have "loops s ! i = Wait_queue"
    using n Ev_worker i
    by (cases "loops s ! i")
       (auto simp: worker_resume_def collect_next_handle split: if_splits)
  then show ?thesis using i by (metis nth_mem)
qed (auto simp: add_recording_def shutdown_def start_def loop_head_next_handle
                task_start_def task_end_def split: option.splits if_splits)

lemma limit_check_keys: "keys_distinct (limit_check i s) = keys_distinct s"
  by (simp add: keys_distinct_def limit_check_def)

lemma loop_head_keys: "keys_distinct (loop_head i s) = keys_distinct s"
  by (simp add: keys_distinct_def loop_head_def limit_check_def cancel_running_def
                case_prod_unfold comp_def)

lemma collect_keys: "keys_distinct s \<Longrightarrow> keys_distinct (collect i ds s)"
proof (induction ds arbitrary: s)
  case Nil
  then show ?case by (simp add: limit_check_keys)
next
  case (Cons d ds)
  have del: "distinct (map fst (AList.delete d (running s)))"
    using Cons.prems by (simp add: keys_distinct_def distinct_delete)
  show ?case
  proof (cases "map_of (running s) d")
    case None
    then show ?thesis using Cons.prems by (simp add: keys_distinct_def)
  next
    case (Some t)
    show ?thesis
    proof (cases "map_of (futures s) d")
      case None
      then show ?thesis using Some del by (simp add: keys_distinct_def)
    next
      case (Some f)
      show ?thesis
      proof (cases f)
        case (Finished r)
        have "keys_distinct (s\<lparr>running := AList.delete d (running s),
                               collected := collected s @ [t\<lparr>result := Some r\<rparr>]\<rparr>)"
          using del by (simp add: keys_distinct_def)
        from Cons.IH[OF this] show ?thesis
          using \<open>map_of (running s) d = Some t\<close> Some Finished by simp
      qed (use \<open>map_of (running s) d = Some t\<close> Some del in \<open>simp_all add: keys_distinct_def\<close>)
    qed
  qed
qed

lemma dequeue_keys: "keys_distinct s \<Longrightarrow> keys_distinct (dequeue i s)"
  by (cases "queue s")
     (simp_all add: dequeue_def loop_head_keys Let_def, simp add: keys_distinct_def distinct_update)

lemma step_keys: "keys_distinct s \<Longrightarrow> keys_distinct (step s ev)"
proof (cases ev)
  case (Ev_worker i ds)
  assume "keys_distinct s"
  then show ?thesis using Ev_worker
    by (cases "loops s ! i")
       (simp_all add: worker_resume_def collect_keys dequeue_keys, simp_all add: keys_distinct_def)
next
  case Ev_start
  assume "keys_distinct s"
  then have "keys_distinct (s\<lparr>cancelled := False, loops := loops s @ [Entered]\<rparr>)"
    by (simp add: keys_distinct_def)
  then show ?thesis using Ev_start by (simp add: start_def loop_head_keys)
next
  case (Ev_task_start h)
  assume "keys_distinct s"
  then show ?thesis using Ev_task_start
    by (auto simp: task_start_def keys_distinct_def distinct_update split: option.splits)
next
  case (Ev_task_end h f)
  assume "keys_distinct s"
  then show ?thesis using Ev_task_end
    by (auto simp: task_end_def keys_distinct_def split: option.splits)
qed (simp_all add: add_recording_def shutdown_def keys_distinct_def)

lemma run_keys: "keys_distinct s \<Longrightarrow> keys_distinct (run s evs)"
  unfolding run_def by (induction evs arbitrary: s) (simp_all add: step_keys)

lemma init_keys: "keys_distinct (Scheduler_init cfg dir)"
  by (simp add: keys_distinct_def Scheduler_init_def)

text \<open>
  C1. As long as \<^verbatim>\<open>start\<close> is not called while a worker loop is active, so that one
  worker loop runs at a time, then whatever callers, tasks and the loop do, in whatever
  order, the number of entries of \<^verbatim>\<open>running\<close> (a dict, its keys distinct) never exceeds
  \<open>concurrency_limit\<close>, for a limit that is not negative (\<open>Config\<close> accepts only limits
  of at least 1); and a step that creates a new task starts from a state with fewer
  running entries than the limit.
\<close>

theorem running_within_concurrency_limit:
  assumes "0 \<le> concurrency_limit cfg"
    and "one_loop_at_a_time (Scheduler_init cfg dir) evs"
  shows "distinct (map fst (running (run (Scheduler_init cfg dir) evs))) \<and>
         int (length (running (run (Scheduler_init cfg dir) evs))) \<le> concurrency_limit cfg \<and>
         (next_handle (step (run (Scheduler_init cfg dir) evs) ev)
            \<noteq> next_handle (run (Scheduler_init cfg dir) evs) \<longrightarrow>
          int (length (running (run (Scheduler_init cfg dir) evs))) < concurrency_limit cfg)"
proof -
  let ?s = "run (Scheduler_init cfg dir) evs"
  have g: "gate_inv ?s" using assms by (intro run_gate init_gate)
  have c: "config ?s = cfg" by (simp add: run_config Scheduler_init_def)
  have k: "keys_distinct ?s" by (intro run_keys init_keys)
  show ?thesis
    using g c k step_launch_only_from_queue_wait[of ?s ev]
    by (auto simp: gate_inv_def within_limit_def slot_free_def keys_distinct_def)
qed

lemmas sched_defs =
  run_def Scheduler_init_def add_recording_def new_task_def shutdown_def start_def suspend_def
  loop_head_def limit_check_def cancel_running_def cancel_task_def cancel_def dequeue_def
  worker_resume_def done_handles_def task_done_def task_start_def task_end_def
  run_recorder_start_def StreamRecorder_init_def

theorem running_within_concurrency_limit_witness:
  "0 \<le> concurrency_limit test_config \<and>
   one_loop_at_a_time (Scheduler_init test_config ''/tmp'') five_submitted \<and>
   distinct (map fst (running (run (Scheduler_init test_config ''/tmp'') five_submitted))) \<and>
   int (length (running (run (Scheduler_init test_config ''/tmp'') five_submitted))) \<le> 2 \<and>
   next_handle (step (run (Scheduler_init test_config ''/tmp'') five_submitted) (Ev_worker 0 []))
     \<noteq> next_handle (run (Scheduler_init test_config ''/tmp'') five_submitted) \<and>
   int (length (running (run (Scheduler_init test_config ''/tmp'') five_submitted))) < 2"
proof -
  have launch:
    "next_handle (step (run (Scheduler_init test_config ''/tmp'') five_submitted) (Ev_worker 0 []))
       \<noteq> next_handle (run (Scheduler_init test_config ''/tmp'') five_submitted)"
    by (simp add: sched_defs five_submitted_def test_config_def)
  have limit: "0 \<le> concurrency_limit test_config"
    by (simp add: test_config_def)
  have one: "one_loop_at_a_time (Scheduler_init test_config ''/tmp'') five_submitted"
    by (simp add: sched_defs five_submitted_def test_config_def)
  show ?thesis
    using running_within_concurrency_limit
            [OF limit one, where ev = "Ev_worker 0 []"] launch limit one
    by (simp add: test_config_def)
qed

text \<open>
  The hypothesis on \<^verbatim>\<open>start\<close> is needed: \<^verbatim>\<open>start\<close> has no guard, and two loops started
  one after the other both pass the test of line 64 before either launches, so that
  under a limit of one two tasks run.
\<close>

lemma two_loops_exceed_limit:
  "concurrency_limit retry_config = 1 \<and>
   map fst (running (run (Scheduler_init retry_config ''/rec'') two_loops)) = [0, 1] \<and>
   loops (run (Scheduler_init retry_config ''/rec'') (take 4 two_loops)) = [Wait_queue, Wait_queue]"
  by (simp add: sched_defs two_loops_def retry_config_def)


section \<open>No retry: a job is launched at most once\<close>

lemma limit_check_queue: "queue (limit_check i s) = queue s"
  by (simp add: limit_check_def)

lemma loop_head_queue: "queue (loop_head i s) = queue s"
  by (simp add: loop_head_def limit_check_def cancel_running_def)

lemma collect_queue: "queue (collect i ds s) = queue s"
  by (induction ds arbitrary: s)
     (auto simp: limit_check_def Let_def split: option.splits fut.splits)

lemma worker_resume_conserves:
  "next_handle (worker_resume i ds s) + length (queue (worker_resume i ds s))
     = next_handle s + length (queue s)"
  by (cases "loops s ! i"; cases "queue s")
     (simp_all add: worker_resume_def dequeue_def loop_head_queue loop_head_next_handle
                    collect_queue collect_next_handle Let_def)

lemma step_conserves:
  "next_handle (step s ev) + length (queue (step s ev))
     = next_handle s + length (queue s) + (if is_add ev then 1 else 0)"
  by (cases ev)
     (auto simp: add_recording_def shutdown_def start_def loop_head_queue loop_head_next_handle
                 worker_resume_conserves task_start_def task_end_def split: option.splits)

lemma run_conserves:
  "next_handle (run s evs) + length (queue (run s evs))
     = next_handle s + length (queue s) + submitted evs"
  unfolding run_def submitted_def
proof (induction evs arbitrary: s)
  case Nil
  show ?case by simp
next
  case (Cons ev evs)
  show ?case using Cons.IH[of "step s ev"] step_conserves[of s ev] by simp
qed

lemma step_queue_same_or_tl:
  "\<not> is_add ev \<Longrightarrow> queue (step s ev) = queue s \<or> queue (step s ev) = tl (queue s)"
proof (cases ev)
  case (Ev_worker i ds)
  then show ?thesis
    by (cases "loops s ! i"; cases "queue s")
       (simp_all add: worker_resume_def dequeue_def loop_head_queue collect_queue Let_def)
qed (auto simp: shutdown_def start_def loop_head_queue task_start_def task_end_def
          split: option.splits)

lemma step_queue_suffix: "\<not> is_add ev \<Longrightarrow> \<exists>n. queue (step s ev) = drop n (queue s)"
proof -
  assume "\<not> is_add ev"
  then consider "queue (step s ev) = queue s" | "queue (step s ev) = tl (queue s)"
    using step_queue_same_or_tl by blast
  then show ?thesis
  proof cases
    case 1
    then have "queue (step s ev) = drop 0 (queue s)" by simp
    then show ?thesis by blast
  next
    case 2
    then have "queue (step s ev) = drop 1 (queue s)" by (simp add: drop_Suc)
    then show ?thesis by blast
  qed
qed

lemma run_queue_suffix:
  "list_all (\<lambda>e. \<not> is_add e) evs \<Longrightarrow> \<exists>n. queue (run s evs) = drop n (queue s)"
  unfolding run_def
proof (induction evs arbitrary: s)
  case Nil
  show ?case by (rule exI[of _ 0]) simp
next
  case (Cons ev evs)
  then have na: "\<not> is_add ev" and rest: "list_all (\<lambda>e. \<not> is_add e) evs" by simp_all
  from step_queue_suffix[OF na, of s] obtain n where n: "queue (step s ev) = drop n (queue s)" ..
  from Cons.IH[OF rest, of "step s ev"] obtain m where
    "queue (foldl step (step s ev) evs) = drop m (queue (step s ev))" ..
  then have "queue (foldl step s (ev # evs)) = drop (m + n) (queue s)" using n by simp
  then show ?case by blast
qed

lemma collect_single_finished:
  assumes "map_of (running s) h = Some t" "map_of (futures s) h = Some (Finished r)"
  shows "collected (collect i [h] s) = collected s @ [t\<lparr>result := Some r\<rparr>]"
    and "running (collect i [h] s) = AList.delete h (running s)"
    and "queue (collect i [h] s) = queue s"
  using assms by (simp_all add: limit_check_def Let_def)

text \<open>
  C2, as the code has it. A job whose recording attempt fails is not put back on the
  queue. From the start, the number of tasks launched plus the number of jobs waiting
  equals the number of submissions, so no job is launched twice, whatever
  \<^verbatim>\<open>retry_max_attempts\<close> is; and when the worker loop collects a finished task, with a
  failing result or not, it stores the result on the job, drops the job from
  \<^verbatim>\<open>running\<close>, and leaves the queue and the number of launches as they were.
\<close>

theorem failed_attempt_is_not_retried:
  "next_handle (run (Scheduler_init cfg dir) evs) + length (queue (run (Scheduler_init cfg dir) evs))
     = submitted evs \<and>
   (i < length (loops s) \<and> loops s ! i = Wait_done hs \<and> done_handles s hs = [h] \<and>
    map_of (running s) h = Some t \<and> map_of (futures s) h = Some (Finished r) \<longrightarrow>
      queue (step s (Ev_worker i [h])) = queue s \<and>
      running (step s (Ev_worker i [h])) = AList.delete h (running s) \<and>
      collected (step s (Ev_worker i [h])) = collected s @ [t\<lparr>result := Some r\<rparr>] \<and>
      next_handle (step s (Ev_worker i [h])) = next_handle s)"
proof -
  have "next_handle (run (Scheduler_init cfg dir) evs)
          + length (queue (run (Scheduler_init cfg dir) evs)) = submitted evs"
    using run_conserves[of "Scheduler_init cfg dir" evs] by (simp add: Scheduler_init_def)
  moreover have
    "queue (step s (Ev_worker i [h])) = queue s \<and>
     running (step s (Ev_worker i [h])) = AList.delete h (running s) \<and>
     collected (step s (Ev_worker i [h])) = collected s @ [t\<lparr>result := Some r\<rparr>] \<and>
     next_handle (step s (Ev_worker i [h])) = next_handle s"
    if "i < length (loops s)" "loops s ! i = Wait_done hs" "done_handles s hs = [h]"
       "map_of (running s) h = Some t" "map_of (futures s) h = Some (Finished r)"
    using that collect_single_finished[of s h t r i] collect_next_handle[of i "[h]" s]
    by (simp add: worker_resume_def)
  ultimately show ?thesis by blast
qed

lemma before_collect_eval:
  "before_collect =
     \<lparr> config = retry_config, download_dir = ''/rec'', queue = [], running = [(0, live_task)],
       cancelled = False, futures = [(0, Finished failing_result)], next_handle = 1,
       loops = [Wait_done [0]], collected = [] \<rparr>"
  by (simp add: before_collect_def fails_once_def sched_defs retry_config_def live_task_def
                live_recorder_def)

theorem failed_attempt_is_not_retried_witness:
  "0 < length (loops before_collect) \<and> loops before_collect ! 0 = Wait_done [0] \<and>
   done_handles before_collect [0] = [0] \<and>
   map_of (running before_collect) 0 = Some live_task \<and>
   map_of (futures before_collect) 0 = Some (Finished failing_result) \<and>
   queue (step before_collect (Ev_worker 0 [0])) = queue before_collect \<and>
   running (step before_collect (Ev_worker 0 [0])) = [] \<and>
   collected (step before_collect (Ev_worker 0 [0])) = [live_task\<lparr>result := Some failing_result\<rparr>] \<and>
   next_handle (step before_collect (Ev_worker 0 [0])) = 1"
proof -
  have pre: "0 < length (loops before_collect) \<and> loops before_collect ! 0 = Wait_done [0] \<and>
             done_handles before_collect [0] = [0] \<and>
             map_of (running before_collect) 0 = Some live_task \<and>
             map_of (futures before_collect) 0 = Some (Finished failing_result)"
    by (simp add: before_collect_eval done_handles_def task_done_def)
  show ?thesis
    using failed_attempt_is_not_retried
            [where cfg = retry_config and dir = "''/rec''" and evs = "[]" and s = before_collect
               and i = 0 and hs = "[0]" and h = 0 and t = live_task and r = failing_result] pre
    by (simp add: before_collect_eval)
qed

text \<open>
  C2 as stated fails: with \<^verbatim>\<open>retry_max_attempts = 3\<close>, a job whose download exits with
  code 1 (the result \<^verbatim>\<open>record()\<close> returns for it) ends with that failing result after
  its only launch; the queue and \<^verbatim>\<open>running\<close> are empty, so no second attempt follows
  however often the worker loop polls the queue.
\<close>

theorem job_failing_once_ends_failed_after_one_attempt:
  "retry_max_attempts retry_config = 3 \<and>
   snd (record_stream live_recorder exits_with_1) = Returned failing_result \<and>
   success failing_result = False \<and>
   queue (run (Scheduler_init retry_config ''/rec'') (fails_once @ [Ev_worker 0 [], Ev_worker 0 []])) = [] \<and>
   running (run (Scheduler_init retry_config ''/rec'') (fails_once @ [Ev_worker 0 [], Ev_worker 0 []])) = [] \<and>
   map result (collected (run (Scheduler_init retry_config ''/rec'')
                             (fails_once @ [Ev_worker 0 [], Ev_worker 0 []]))) = [Some failing_result] \<and>
   next_handle (run (Scheduler_init retry_config ''/rec'') (fails_once @ [Ev_worker 0 [], Ev_worker 0 []])) = 1"
proof -
  have "snd (record_stream live_recorder exits_with_1) = Returned failing_result"
    by (simp add: record_stream_def live_recorder_def StreamRecorder_init_def exits_with_1_def
                  failing_result_def str_int_def digit_char_def)
  moreover have
    "run (Scheduler_init retry_config ''/rec'') (fails_once @ [Ev_worker 0 [], Ev_worker 0 []]) =
       \<lparr> config = retry_config, download_dir = ''/rec'', queue = [], running = [],
         cancelled = False, futures = [(0, Finished failing_result)], next_handle = 1,
         loops = [Wait_queue], collected = [live_task\<lparr>result := Some failing_result\<rparr>] \<rparr>"
    by (simp add: fails_once_def sched_defs retry_config_def live_task_def live_recorder_def)
  ultimately show ?thesis
    by (simp add: retry_config_def failing_result_def failed_def)
qed


section \<open>The retry settings are not read\<close>

lemma set_retry_swap:
  "(set_retry m b s)\<lparr>running := rs\<rparr> = set_retry m b (s\<lparr>running := rs\<rparr>)"
  "(set_retry m b s)\<lparr>collected := cs\<rparr> = set_retry m b (s\<lparr>collected := cs\<rparr>)"
  "(set_retry m b s)\<lparr>loops := w\<rparr> = set_retry m b (s\<lparr>loops := w\<rparr>)"
  "(set_retry m b s)\<lparr>cancelled := c\<rparr> = set_retry m b (s\<lparr>cancelled := c\<rparr>)"
  "(set_retry m b s)\<lparr>futures := fs\<rparr> = set_retry m b (s\<lparr>futures := fs\<rparr>)"
  "(set_retry m b s)\<lparr>queue := q\<rparr> = set_retry m b (s\<lparr>queue := q\<rparr>)"
  "(set_retry m b s)\<lparr>next_handle := n\<rparr> = set_retry m b (s\<lparr>next_handle := n\<rparr>)"
  by (cases s; simp add: set_retry_def)+

lemma set_retry_sel:
  "running (set_retry m b s) = running s" "futures (set_retry m b s) = futures s"
  "collected (set_retry m b s) = collected s" "loops (set_retry m b s) = loops s"
  "queue (set_retry m b s) = queue s" "next_handle (set_retry m b s) = next_handle s"
  "cancelled (set_retry m b s) = cancelled s" "download_dir (set_retry m b s) = download_dir s"
  "concurrency_limit (config (set_retry m b s)) = concurrency_limit (config s)"
  "segment_duration_min (config (set_retry m b s)) = segment_duration_min (config s)"
  by (simp_all add: set_retry_def)

lemma set_retry_suspend: "suspend i pc (set_retry m b s) = set_retry m b (suspend i pc s)"
  by (simp add: suspend_def set_retry_sel set_retry_swap)

lemma set_retry_limit_check: "limit_check i (set_retry m b s) = set_retry m b (limit_check i s)"
  by (simp add: limit_check_def set_retry_sel set_retry_suspend)

lemma set_retry_cancel_running:
  "cancel_running (set_retry m b s) = set_retry m b (cancel_running s)"
  by (simp add: cancel_running_def set_retry_sel set_retry_swap)

lemma set_retry_loop_head: "loop_head i (set_retry m b s) = set_retry m b (loop_head i s)"
  by (simp add: loop_head_def set_retry_limit_check set_retry_cancel_running set_retry_sel
                set_retry_suspend)

lemma set_retry_collect: "collect i ds (set_retry m b s) = set_retry m b (collect i ds s)"
proof (induction ds arbitrary: s)
  case Nil
  show ?case by (simp add: set_retry_limit_check)
next
  case (Cons d ds)
  show ?case
    by (simp add: set_retry_sel set_retry_swap set_retry_suspend Cons.IH Let_def
             split: option.splits fut.splits)
qed

lemma set_retry_dequeue: "dequeue i (set_retry m b s) = set_retry m b (dequeue i s)"
  by (simp add: dequeue_def set_retry_sel set_retry_swap set_retry_loop_head Let_def
           split: list.splits)

lemma set_retry_task_done: "task_done (set_retry m b s) = task_done s"
  by (simp add: fun_eq_iff task_done_def set_retry_sel)

lemma set_retry_worker_resume:
  "worker_resume i ds (set_retry m b s) = set_retry m b (worker_resume i ds s)"
  by (simp add: worker_resume_def done_handles_def set_retry_task_done set_retry_sel
                set_retry_suspend set_retry_collect set_retry_dequeue split: worker_pc.splits)

lemma set_retry_task_start: "task_start h (set_retry m b s) = set_retry m b (task_start h s)"
  by (simp add: task_start_def run_recorder_start_def set_retry_sel set_retry_swap
           split: option.splits)

lemma set_retry_task_end: "task_end h f (set_retry m b s) = set_retry m b (task_end h f s)"
  by (auto simp: task_end_def set_retry_sel set_retry_swap split: option.splits)

lemma set_retry_start: "start (set_retry m b s) = set_retry m b (start s)"
proof -
  have "(set_retry m b s)\<lparr>cancelled := False, loops := loops s @ [Entered]\<rparr>
          = set_retry m b (s\<lparr>cancelled := False, loops := loops s @ [Entered]\<rparr>)"
    by (cases s) (simp add: set_retry_def)
  then show ?thesis by (simp add: start_def set_retry_sel set_retry_loop_head)
qed

lemma set_retry_step: "step (set_retry m b s) ev = set_retry m b (step s ev)"
  by (cases ev)
     (simp_all add: add_recording_def shutdown_def set_retry_sel set_retry_swap
                    set_retry_start set_retry_worker_resume set_retry_task_start
                    set_retry_task_end)

text \<open>
  C5, as the code has it. No retry delay is computed: \<^verbatim>\<open>backoff_base_seconds\<close> and
  \<^verbatim>\<open>retry_max_attempts\<close> are stored in the configuration and never read, so every run
  of the scheduler is the same run under any other value of the two settings.
\<close>

theorem scheduler_ignores_retry_settings:
  "run (set_retry m b s) evs = set_retry m b (run s evs)"
  unfolding run_def
  by (induction evs arbitrary: s) (simp_all add: set_retry_step)

lemma after_failure_eval:
  "after_failure =
     \<lparr> config = retry_config, download_dir = ''/rec'', queue = [], running = [],
       cancelled = False, futures = [(0, Finished failing_result)], next_handle = 1,
       loops = [Wait_queue], collected = [live_task\<lparr>result := Some failing_result\<rparr>] \<rparr>"
  by (simp add: after_failure_def fails_once_def sched_defs retry_config_def live_task_def
                live_recorder_def)

text \<open>
  C5 as stated fails: with \<^verbatim>\<open>backoff_base_seconds = 2\<close>, once the only attempt of a job has
  failed and been collected, nothing runs and nothing waits, one task has been launched,
  and resuming the worker loop (its poll of the queue timing out) changes nothing: no
  attempt 2, 3 or 4 follows after 2, 4 or 8 seconds or at any other time.
\<close>

theorem no_second_attempt_with_backoff_base_2:
  "backoff_base_seconds (config after_failure) = 2 \<and>
   next_handle after_failure = 1 \<and>
   running after_failure = [] \<and>
   queue after_failure = [] \<and>
   step after_failure (Ev_worker 0 []) = after_failure"
  by (simp add: after_failure_eval sched_defs retry_config_def)


section \<open>Submissions after shutdown\<close>

text \<open>
  C4, as the code has it. \<^verbatim>\<open>add_recording\<close> never blocks and never fails: in every
  state it appends the new job at the tail of the queue, also right after
  \<^verbatim>\<open>shutdown()\<close>, whatever happened before; there is no SchedulerClosed error.
\<close>

theorem add_recording_always_enqueues:
  "queue (step s (Ev_add u q)) = queue s @ [new_task u q] \<and>
   queue (run s (evs @ [Ev_shutdown, Ev_add u q])) = queue (run s evs) @ [new_task u q] \<and>
   cancelled (run s (evs @ [Ev_shutdown, Ev_add u q]))"
  by (simp add: run_def add_recording_def shutdown_def)

text \<open>
  C4 as stated fails: a submission made after \<^verbatim>\<open>shutdown()\<close> is accepted and the job is
  on the queue.
\<close>

theorem submission_after_shutdown_is_enqueued:
  "cancelled (run (Scheduler_init test_config ''/tmp'') [Ev_start, Ev_shutdown]) \<and>
   queue (run (Scheduler_init test_config ''/tmp'')
            [Ev_start, Ev_shutdown, Ev_add ''https://example.com/late'' ''best''])
     = [new_task ''https://example.com/late'' ''best'']"
  by (simp add: sched_defs test_config_def)


section \<open>Shutdown\<close>

lemma cancel_running_flags:
  "list_all (\<lambda>(h, t). recorder_flagged t) (running (cancel_running s))"
  by (auto simp: cancel_running_def list_all_iff recorder_flagged_def cancel_task_def cancel_def
           split: option.splits)

lemma map_of_map_fut:
  "map_of (map (\<lambda>(h, f). (h, g h f)) fs) k = map_option (g k) (map_of fs k)"
  by (induction fs) auto

lemma cancel_running_not_pending:
  "h \<in> set (map fst (running s)) \<Longrightarrow> not_pending (cancel_running s) h"
proof -
  assume h: "h \<in> set (map fst (running s))"
  have "map_of (futures (cancel_running s)) h
          = map_option (\<lambda>f. if h \<in> set (map fst (running s)) then fut_cancel f else f)
                       (map_of (futures s) h)"
    unfolding cancel_running_def
    using map_of_map_fut[of "\<lambda>h f. if h \<in> set (map fst (running s)) then fut_cancel f else f"
                            "futures s" h]
    by simp
  then have "map_of (futures (cancel_running s)) h = map_option fut_cancel (map_of (futures s) h)"
    using h by simp
  then show ?thesis
    by (cases "map_of (futures s) h") (auto simp: not_pending_def elim: fut_cancel.elims)
qed

lemma cancel_running_keys: "map fst (running (cancel_running s)) = map fst (running s)"
  by (simp add: cancel_running_def case_prod_unfold)

text \<open>
  C3, as the code has it. \<^verbatim>\<open>shutdown()\<close> sets the flag and returns at once: the queue, the
  running jobs, their tasks and the worker loops are as before. When a worker loop next
  tests its loop condition with the flag set, it sets the cancel event of every running
  job that has a recorder, requests the cancellation of every running task and waits for
  them in \<^verbatim>\<open>gather\<close>; the queue is left as it is, there and while the loop waits, and the
  loop returns only when every task it waits for is done.
\<close>

theorem shutdown_sets_flag_and_loop_cancels_running:
  "queue (shutdown s) = queue s \<and> running (shutdown s) = running s \<and>
   futures (shutdown s) = futures s \<and> loops (shutdown s) = loops s \<and>
   collected (shutdown s) = collected s \<and> cancelled (shutdown s) \<and>
   (cancelled s \<and> i < length (loops s) \<longrightarrow>
      loops (loop_head i s) ! i = Wait_gather (map fst (running s)) \<and>
      queue (loop_head i s) = queue s \<and>
      map fst (running (loop_head i s)) = map fst (running s) \<and>
      list_all (\<lambda>(h, t). recorder_flagged t) (running (loop_head i s)) \<and>
      list_all (not_pending (loop_head i s)) (map fst (running s))) \<and>
   (i < length (loops s) \<and> loops s ! i = Wait_gather hs \<longrightarrow>
      queue (step s (Ev_worker i ds)) = queue s \<and> running (step s (Ev_worker i ds)) = running s \<and>
      (loops (step s (Ev_worker i ds)) ! i = Loop_returned \<longrightarrow> list_all (task_done s) hs))"
proof -
  have a: "queue (shutdown s) = queue s \<and> running (shutdown s) = running s \<and>
           futures (shutdown s) = futures s \<and> loops (shutdown s) = loops s \<and>
           collected (shutdown s) = collected s \<and> cancelled (shutdown s)"
    by (simp add: shutdown_def)
  have b: "loops (loop_head i s) ! i = Wait_gather (map fst (running s)) \<and>
           queue (loop_head i s) = queue s \<and>
           map fst (running (loop_head i s)) = map fst (running s) \<and>
           list_all (\<lambda>(h, t). recorder_flagged t) (running (loop_head i s)) \<and>
           list_all (not_pending (loop_head i s)) (map fst (running s))"
    if c: "cancelled s" and i: "i < length (loops s)"
  proof -
    have lh: "loop_head i s = suspend i (Wait_gather (map fst (running s))) (cancel_running s)"
      using c by (simp add: loop_head_def)
    have l: "loops (cancel_running s) = loops s" by (simp add: cancel_running_def)
    have np: "not_pending (suspend i pc (cancel_running s)) h"
      if "h \<in> set (map fst (running s))" for h pc
      using cancel_running_not_pending[OF that] by (simp add: not_pending_def)
    show ?thesis
      unfolding lh using cancel_running_flags[of s] cancel_running_keys[of s] np i l
      by (simp add: list_all_iff) (simp add: cancel_running_def)
  qed
  have c: "queue (step s (Ev_worker i ds)) = queue s \<and> running (step s (Ev_worker i ds)) = running s \<and>
           (loops (step s (Ev_worker i ds)) ! i = Loop_returned \<longrightarrow> list_all (task_done s) hs)"
    if "i < length (loops s)" "loops s ! i = Wait_gather hs"
    using that by (simp add: worker_resume_def)
  show ?thesis using a b c by blast
qed

lemma shutdown_while_busy_eval:
  "shutdown_while_busy =
     \<lparr> config = test_config, download_dir = ''/tmp'',
       queue = [new_task ''https://example.com/2'' ''best'', new_task ''https://example.com/3'' ''best'',
                new_task ''https://example.com/4'' ''best''],
       running = [(0, run_recorder_start (Scheduler_init test_config ''/tmp'') (new_task ''https://example.com/0'' ''best'')),
                  (1, run_recorder_start (Scheduler_init test_config ''/tmp'') (new_task ''https://example.com/1'' ''best''))],
       cancelled = True, futures = [(0, Pending), (1, Pending)], next_handle = 2,
       loops = [Wait_done [0, 1]], collected = [] \<rparr>"
  by (simp add: shutdown_while_busy_def scenario_e_def five_submitted_def sched_defs test_config_def)

lemma gather_pending_eval:
  "gather_pending =
     \<lparr> config = test_config, download_dir = ''/tmp'',
       queue = [new_task ''https://example.com/3'' ''best'', new_task ''https://example.com/4'' ''best''],
       running = [(1, cancel_task (run_recorder_start (Scheduler_init test_config ''/tmp'')
                                     (new_task ''https://example.com/1'' ''best''))),
                  (2, new_task ''https://example.com/2'' ''best'')],
       cancelled = True,
       futures = [(0, Finished failing_result), (1, Cancelling), (2, Cancelling)], next_handle = 3,
       loops = [Wait_gather [1, 2]],
       collected = [(run_recorder_start (Scheduler_init test_config ''/tmp'')
                       (new_task ''https://example.com/0'' ''best''))\<lparr>result := Some failing_result\<rparr>] \<rparr>"
  by (simp add: gather_pending_def shutdown_while_busy_eval sched_defs test_config_def)

lemma gather_done_eval:
  "gather_done = gather_pending\<lparr>futures := [(0, Finished failing_result), (1, Cancelled), (2, Cancelled)]\<rparr>"
  by (simp add: gather_done_def gather_pending_eval sched_defs test_config_def)

theorem shutdown_sets_flag_and_loop_cancels_running_witness:
  "cancelled shutdown_while_busy \<and> 0 < length (loops shutdown_while_busy) \<and>
   map (\<lambda>(h, t). map_option cancel_event (recorder t)) (running shutdown_while_busy)
     = [Some False, Some False] \<and>
   futures shutdown_while_busy = [(0, Pending), (1, Pending)] \<and>
   loops (loop_head 0 shutdown_while_busy) ! 0 = Wait_gather [0, 1] \<and>
   queue (loop_head 0 shutdown_while_busy) = queue shutdown_while_busy \<and>
   length (queue shutdown_while_busy) = 3 \<and>
   list_all (\<lambda>(h, t). recorder_flagged t) (running (loop_head 0 shutdown_while_busy)) \<and>
   map (\<lambda>(h, t). map_option cancel_event (recorder t)) (running (loop_head 0 shutdown_while_busy))
     = [Some True, Some True] \<and>
   list_all (not_pending (loop_head 0 shutdown_while_busy)) [0, 1] \<and>
   futures (loop_head 0 shutdown_while_busy) = [(0, Cancelling), (1, Cancelling)] \<and>
   loops gather_pending ! 0 = Wait_gather [1, 2] \<and>
   step gather_pending (Ev_worker 0 []) = gather_pending \<and>
   loops gather_done ! 0 = Wait_gather [1, 2] \<and>
   loops (step gather_done (Ev_worker 0 [])) ! 0 = Loop_returned \<and>
   list_all (task_done gather_done) [1, 2] \<and>
   queue (step gather_done (Ev_worker 0 [])) = queue gather_done \<and>
   length (queue gather_done) = 2 \<and>
   running (step gather_done (Ev_worker 0 [])) = running gather_done"
proof -
  have pre: "cancelled shutdown_while_busy \<and> 0 < length (loops shutdown_while_busy)"
    by (simp add: shutdown_while_busy_eval)
  have pre2: "0 < length (loops gather_done) \<and> loops gather_done ! 0 = Wait_gather [1, 2] \<and>
              loops (step gather_done (Ev_worker 0 [])) ! 0 = Loop_returned"
    by (simp add: gather_done_eval gather_pending_eval worker_resume_def task_done_def suspend_def)
  have ev: "map (\<lambda>(h, t). map_option cancel_event (recorder t)) (running shutdown_while_busy)
              = [Some False, Some False]"
    "futures shutdown_while_busy = [(0, Pending), (1, Pending)]"
    "length (queue shutdown_while_busy) = 3"
    "map (\<lambda>(h, t). map_option cancel_event (recorder t)) (running (loop_head 0 shutdown_while_busy))
       = [Some True, Some True]"
    "futures (loop_head 0 shutdown_while_busy) = [(0, Cancelling), (1, Cancelling)]"
    "map fst (running shutdown_while_busy) = [0, 1]"
    by (simp_all add: shutdown_while_busy_eval sched_defs test_config_def)
  have ev2: "loops gather_pending ! 0 = Wait_gather [1, 2]"
    "step gather_pending (Ev_worker 0 []) = gather_pending"
    "length (queue gather_done) = 2"
    by (simp_all add: gather_done_eval gather_pending_eval worker_resume_def task_done_def)
  show ?thesis
    using shutdown_sets_flag_and_loop_cancels_running
            [where s = shutdown_while_busy and i = 0 and hs = "[]" and ds = "[]"]
          shutdown_sets_flag_and_loop_cancels_running
            [where s = gather_done and i = 0 and hs = "[1, 2]" and ds = "[]"]
          pre pre2 ev ev2
    by simp
qed

text \<open>
  C3 as stated fails: \<^verbatim>\<open>shutdown()\<close> called while two jobs run and three wait has
  returned with the two tasks pending and their recorders not cancelled, and with the
  three queued jobs still on the queue without a result; resuming the worker loop, which
  waits in \<^verbatim>\<open>asyncio.wait\<close> for a task to finish, changes nothing.
\<close>

theorem shutdown_leaves_running_and_queued_jobs:
  "cancelled shutdown_while_busy \<and>
   map fst (running shutdown_while_busy) = [0, 1] \<and>
   map (\<lambda>(h, t). map_option cancel_event (recorder t)) (running shutdown_while_busy)
     = [Some False, Some False] \<and>
   futures shutdown_while_busy = [(0, Pending), (1, Pending)] \<and>
   map url (queue shutdown_while_busy)
     = [''https://example.com/2'', ''https://example.com/3'', ''https://example.com/4''] \<and>
   map result (queue shutdown_while_busy) = [None, None, None] \<and>
   step shutdown_while_busy (Ev_worker 0 []) = shutdown_while_busy"
  by (simp add: shutdown_while_busy_eval sched_defs test_config_def)


section \<open>Cancelling twice\<close>

text \<open>
  C8, as the code has it. Cancellation is idempotent: \<^verbatim>\<open>cancel()\<close> sets the event, and a
  second \<^verbatim>\<open>cancel()\<close> leaves the recorder as the first did, so \<^verbatim>\<open>record()\<close> behaves the
  same, also when both calls arrive during one read; the same holds for the cancellation
  of a job, of a task and of all running jobs by the worker loop. On a job that has ended,
  cancelling still sets the event of the recorder; it leaves the task, which is done, and
  the result stored on the job as they are, and the jobs already collected are not among
  those the worker loop cancels.
\<close>

theorem cancel_is_idempotent:
  "cancel (cancel r) = cancel r \<and>
   cancel_event (cancel r) \<and>
   record_stream (cancel (cancel r)) env = record_stream (cancel r) env \<and>
   wait_line cb flag (Cancel_called # Cancel_called # evs) = wait_line cb flag (Cancel_called # evs) \<and>
   cancel_task (cancel_task t) = cancel_task t \<and>
   fut_cancel (fut_cancel f) = fut_cancel f \<and>
   cancel_running (cancel_running s) = cancel_running s \<and>
   (is_done f \<longrightarrow> fut_cancel f = f) \<and>
   result (cancel_task t) = result t \<and>
   collected (cancel_running s) = collected s"
proof -
  have r: "cancel (cancel r) = cancel r" "cancel_event (cancel r)" by (simp_all add: cancel_def)
  have t: "cancel_task (cancel_task t) = cancel_task t" for t
    by (cases "recorder t") (simp_all add: cancel_task_def cancel_def)
  have f: "fut_cancel (fut_cancel f) = fut_cancel f" for f by (cases f) simp_all
  have d: "is_done f \<longrightarrow> fut_cancel f = f" by (cases f) simp_all
  have keys: "set (map fst (map (\<lambda>(h, t). (h, cancel_task t)) (running s))) = set (map fst (running s))"
    by (simp add: case_prod_unfold)
  have s: "cancel_running (cancel_running s) = cancel_running s"
    unfolding cancel_running_def
    by (simp add: t f keys case_prod_unfold comp_def del: set_map)
  show ?thesis using r t f d s
    by (simp add: cancel_task_def cancel_running_def)
qed

theorem cancel_is_idempotent_witness:
  "is_done (Finished failing_result) \<and>
   fut_cancel (Finished failing_result) = Finished failing_result \<and>
   cancel (cancel live_recorder) = cancel live_recorder \<and>
   cancel_event (cancel live_recorder) \<and>
   cancel_task (cancel_task live_task) = cancel_task live_task \<and>
   result (cancel_task (live_task\<lparr>result := Some failing_result\<rparr>)) = Some failing_result \<and>
   cancel_running (cancel_running shutdown_while_busy) = cancel_running shutdown_while_busy"
  using cancel_is_idempotent
          [where r = live_recorder and env = exits_with_1 and cb = None and flag = False
             and evs = "[]" and t = live_task and f = "Finished failing_result"
             and s = shutdown_while_busy]
        cancel_is_idempotent
          [where r = live_recorder and env = exits_with_1 and cb = None and flag = False
             and evs = "[]" and t = "live_task\<lparr>result := Some failing_result\<rparr>"
             and f = "Finished failing_result" and s = shutdown_while_busy]
  by simp

text \<open>
  C8 as stated fails: cancelling a job that has ended is not a no-op. The shutdown loop
  goes through every entry of \<^verbatim>\<open>running\<close>, among them a job whose task has finished and
  was not collected yet, and sets the cancel event of its recorder; so does \<^verbatim>\<open>cancel()\<close>
  on a recorder whose \<^verbatim>\<open>record()\<close> has returned.
\<close>

theorem cancel_sets_event_of_ended_job:
  "map_of (futures before_collect) 0 = Some (Finished failing_result) \<and>
   map (\<lambda>(h, t). map_option cancel_event (recorder t)) (running before_collect) = [Some False] \<and>
   map (\<lambda>(h, t). map_option cancel_event (recorder t)) (running (cancel_running before_collect))
     = [Some True] \<and>
   cancel_running before_collect \<noteq> before_collect \<and>
   snd (record_stream live_recorder exits_with_1) = Returned failing_result \<and>
   cancel_event live_recorder = False \<and>
   cancel live_recorder \<noteq> live_recorder"
proof -
  have r: "snd (record_stream live_recorder exits_with_1) = Returned failing_result"
    by (simp add: record_stream_def live_recorder_def StreamRecorder_init_def exits_with_1_def
                  failing_result_def str_int_def digit_char_def)
  have a: "map (\<lambda>(h, t). map_option cancel_event (recorder t)) (running before_collect) = [Some False]"
    "map (\<lambda>(h, t). map_option cancel_event (recorder t)) (running (cancel_running before_collect))
       = [Some True]"
    "map_of (futures before_collect) 0 = Some (Finished failing_result)"
    by (simp_all add: before_collect_eval cancel_running_def cancel_task_def cancel_def live_task_def
                      live_recorder_def StreamRecorder_init_def)
  have ne: "cancel_running before_collect \<noteq> before_collect"
    using a(1,2) by auto
  have c: "cancel_event live_recorder = False"
    by (simp add: live_recorder_def StreamRecorder_init_def)
  then have "cancel live_recorder \<noteq> live_recorder"
    by (auto simp: cancel_def dest: arg_cong[where f = cancel_event])
  then show ?thesis using r a ne c by simp
qed


section \<open>What Config validates\<close>

text \<open>
  C9, as the code has it. Constructing a \<^verbatim>\<open>Config\<close> fails exactly when a given
  \<^verbatim>\<open>concurrency_limit\<close> or a given \<^verbatim>\<open>segment_duration_min\<close> is below 1, so that every
  \<^verbatim>\<open>Config\<close> has a limit and a segment duration of at least 1; \<^verbatim>\<open>retry_max_attempts\<close> and
  \<^verbatim>\<open>backoff_base_seconds\<close> are taken as given (or at their defaults 5 and 5.0), with no
  check.
\<close>

theorem Config_init_checks_limit_and_segment_only:
  "(case Config_init home kw of
      Inl errs \<Rightarrow>
        errs \<noteq> [] \<and>
        ((\<exists>v. kw_concurrency_limit kw = Some v \<and> v < 1) \<or>
         (\<exists>v. kw_segment_duration_min kw = Some v \<and> v < 1))
    | Inr c \<Rightarrow>
        1 \<le> concurrency_limit c \<and> 1 \<le> segment_duration_min c \<and>
        concurrency_limit c = field_value 4 (kw_concurrency_limit kw) \<and>
        segment_duration_min c = field_value 30 (kw_segment_duration_min kw) \<and>
        retry_max_attempts c = field_value 5 (kw_retry_max_attempts kw) \<and>
        backoff_base_seconds c = field_value 5 (kw_backoff_base_seconds kw)) \<and>
   ((\<exists>v. kw_concurrency_limit kw = Some v \<and> v < 1) \<or>
    (\<exists>v. kw_segment_duration_min kw = Some v \<and> v < 1) \<longrightarrow>
      (\<exists>errs. Config_init home kw = Inl errs))"
  by (cases "kw_concurrency_limit kw"; cases "kw_segment_duration_min kw")
     (auto simp: Config_init_def field_errors_def field_value_def validate_concurrency_def
                 validate_segment_duration_def Let_def)

theorem Config_init_checks_limit_and_segment_only_witness:
  "Config_init ''/home/u'' limit_7 =
     Inr \<lparr> Config.download_dir = ''/home/u/multirec_downloads'', db_path = ''/home/u/.multirec.db'',
           concurrency_limit = 7, segment_duration_min = 30, retry_max_attempts = 5,
           backoff_base_seconds = 5 \<rparr> \<and>
   kw_concurrency_limit limit_0 = Some 0 \<and>
   Config_init ''/home/u'' limit_0 = Inl [''concurrency_limit must be at least 1'']"
  using Config_init_checks_limit_and_segment_only [where home = "''/home/u''" and kw = limit_7]
        Config_init_checks_limit_and_segment_only [where home = "''/home/u''" and kw = limit_0]
  by (simp add: Config_init_def limit_7_def limit_0_def no_kwargs_def field_errors_def
                field_value_def validate_concurrency_def validate_segment_duration_def)

text \<open>
  C9 as stated fails: \<^verbatim>\<open>Config(retry_max_attempts=0, backoff_base_seconds=-1.0)\<close> is
  constructed without an error.
\<close>

theorem Config_accepts_retry_0_and_negative_backoff:
  "Config_init ''/home/u'' unchecked_retry =
     Inr \<lparr> Config.download_dir = ''/home/u/multirec_downloads'', db_path = ''/home/u/.multirec.db'',
           concurrency_limit = 4, segment_duration_min = 30, retry_max_attempts = 0,
           backoff_base_seconds = - 1 \<rparr>"
  by (simp add: Config_init_def unchecked_retry_def no_kwargs_def field_errors_def field_value_def)


section \<open>Cancelling a recording\<close>

lemma read_loop_flag_set: "read_loop cb True evs = ([], Loop_cancelled)"
  by simp

lemma read_loop_sees_cancel:
  "list_all (line_ok cb) ls \<Longrightarrow> line_ok cb l \<Longrightarrow>
   \<exists>acts. read_loop cb False (map (\<lambda>x. Read (Returns x)) ls @ Cancel_called # Read (Returns l) # post)
            = (acts, Loop_cancelled)"
proof (induction ls)
  case Nil
  then obtain a where "handle_line cb l = Inr a" and "l \<noteq> []"
    by (auto simp: line_ok_def split: sum.splits)
  then show ?case by simp
next
  case (Cons x xs)
  then obtain a where a: "handle_line cb x = Inr a" and x: "x \<noteq> []"
    by (auto simp: line_ok_def split: sum.splits)
  from Cons obtain acts where
    "read_loop cb False (map (\<lambda>x. Read (Returns x)) xs @ Cancel_called # Read (Returns l) # post)
       = (acts, Loop_cancelled)"
    by auto
  then show ?case using a x by simp
qed

text \<open>
  C6, as the code has it. When the download process was started and the cancel event is
  set at the top of an iteration of the read loop, that is on entry to the loop or after
  a line was read and handled following a \<^verbatim>\<open>cancel()\<close> call, \<^verbatim>\<open>record()\<close> terminates the
  process, waits for it, and returns the result with \<^verbatim>\<open>success = False\<close> and
  \<^verbatim>\<open>error = "Cancelled"\<close>.
\<close>

theorem cancel_seen_at_top_of_read_loop:
  assumes "yt_spawn_error env = None"
  shows "(cancel_event r \<longrightarrow>
            record_stream r env =
              ([Spawn (yt_cmd r (temp_file_of env)), Terminate, Wait_exit],
               Returned (failed ''Cancelled'' (utcnow_start env)))) \<and>
         (\<not> cancel_event r \<and> list_all (line_ok (on_update r)) ls \<and> line_ok (on_update r) l \<and>
          stdout_events env = map (\<lambda>x. Read (Returns x)) ls @ Cancel_called # Read (Returns l) # post
            \<longrightarrow>
            (\<exists>acts. record_stream r env =
                      (Spawn (yt_cmd r (temp_file_of env)) # acts @ [Terminate, Wait_exit],
                       Returned (failed ''Cancelled'' (utcnow_start env)))))"
proof (intro conjI impI)
  assume "cancel_event r"
  then show "record_stream r env =
              ([Spawn (yt_cmd r (temp_file_of env)), Terminate, Wait_exit],
               Returned (failed ''Cancelled'' (utcnow_start env)))"
    using assms by (simp add: record_stream_def temp_file_of_def)
next
  assume h: "\<not> cancel_event r \<and> list_all (line_ok (on_update r)) ls \<and> line_ok (on_update r) l \<and>
          stdout_events env = map (\<lambda>x. Read (Returns x)) ls @ Cancel_called # Read (Returns l) # post"
  then obtain acts where
    "read_loop (on_update r) False (stdout_events env) = (acts, Loop_cancelled)"
    using read_loop_sees_cancel[of "on_update r" ls l post] by auto
  then have "record_stream r env =
               (Spawn (yt_cmd r (temp_file_of env)) # acts @ [Terminate, Wait_exit],
                Returned (failed ''Cancelled'' (utcnow_start env)))"
    using assms h by (simp add: record_stream_def temp_file_of_def)
  then show "\<exists>acts. record_stream r env =
                      (Spawn (yt_cmd r (temp_file_of env)) # acts @ [Terminate, Wait_exit],
                       Returned (failed ''Cancelled'' (utcnow_start env)))"
    by blast
qed

lemma cancelled_during_a_read_eval:
  "record_stream live_recorder cancelled_during_a_read =
     ([Spawn (yt_cmd live_recorder ''/tmp/multirec_a/download.ts''), Terminate, Wait_exit],
      Returned (failed ''Cancelled'' ''2024-01-02T03:04:05''))"
  by code_simp

theorem cancel_seen_at_top_of_read_loop_witness:
  "yt_spawn_error quiet_env = None \<and> cancel_event (cancel live_recorder) \<and>
   record_stream (cancel live_recorder) quiet_env =
     ([Spawn (yt_cmd live_recorder ''/tmp/multirec_a/download.ts''), Terminate, Wait_exit],
      Returned (failed ''Cancelled'' ''2024-01-02T03:04:05'')) \<and>
   \<not> cancel_event live_recorder \<and>
   list_all (line_ok (on_update live_recorder)) [''frame=  1''] \<and>
   line_ok (on_update live_recorder) ''frame=  2'' \<and>
   stdout_events cancelled_during_a_read =
     map (\<lambda>x. Read (Returns x)) [''frame=  1''] @ Cancel_called # Read (Returns ''frame=  2'') # [Read (Returns [])] \<and>
   snd (record_stream live_recorder cancelled_during_a_read) =
     Returned (failed ''Cancelled'' ''2024-01-02T03:04:05'')"
proof -
  have pre: "yt_spawn_error quiet_env = None" "yt_spawn_error cancelled_during_a_read = None"
    "cancel_event (cancel live_recorder)" "\<not> cancel_event live_recorder"
    "list_all (line_ok (on_update live_recorder)) [''frame=  1'']"
    "line_ok (on_update live_recorder) ''frame=  2''"
    "stdout_events cancelled_during_a_read =
       map (\<lambda>x. Read (Returns x)) [''frame=  1''] @ Cancel_called # Read (Returns ''frame=  2'') # [Read (Returns [])]"
    by (simp_all add: quiet_env_def cancelled_during_a_read_def cancel_def live_recorder_def
                      StreamRecorder_init_def line_ok_def handle_line_def)
  have eq: "temp_file_of quiet_env = ''/tmp/multirec_a/download.ts''"
           "utcnow_start quiet_env = ''2024-01-02T03:04:05''"
           "utcnow_start cancelled_during_a_read = ''2024-01-02T03:04:05''"
           "yt_cmd (cancel live_recorder) = yt_cmd live_recorder"
    by (simp_all add: temp_file_of_def quiet_env_def cancelled_during_a_read_def path_join_def
                      yt_cmd_def cancel_def fun_eq_iff)
  show ?thesis
    using cancel_seen_at_top_of_read_loop [OF pre(1), of "cancel live_recorder" "[]" "[]" "[]"]
          cancel_seen_at_top_of_read_loop
            [OF pre(2), of live_recorder "[''frame=  1'']" "''frame=  2''" "[Read (Returns [])]"]
          pre
    by (auto simp: eq)
qed

text \<open>
  C6 as stated fails: when \<^verbatim>\<open>cancel()\<close> is called during the read that ends with end of
  file, the loop is left without another test of the event; the process is not
  terminated, the remux runs, and \<^verbatim>\<open>record()\<close> returns a successful result.
\<close>

theorem cancel_during_last_read_is_not_seen:
  "cancel_event live_recorder = False \<and>
   stdout_events cancelled_during_last_read = [Cancel_called, Read (Returns [])] \<and>
   record_stream live_recorder cancelled_during_last_read =
     ([Spawn (yt_cmd live_recorder ''/tmp/multirec_a/download.ts''), Wait_exit,
       Spawn (ff_cmd ''/tmp/multirec_a/download.ts'' ''/rec/20240102T030405.mp4''),
       Write_metadata ''/rec/20240102T030405.json''
         (metadata live_recorder ''2024-01-02T03:04:05'' ''2024-01-02T04:04:05''
            ''/rec/20240102T030405.mp4''),
       Rmtree ''/tmp/multirec_a''],
      Returned \<lparr> success = True, file_path = Some ''/rec/20240102T030405.mp4'',
                 metadata_path = Some ''/rec/20240102T030405.json'', error = None,
                 start_time = ''2024-01-02T03:04:05'', end_time = Some ''2024-01-02T04:04:05'' \<rparr>)"
  by code_simp


section \<open>Progress lines\<close>

text \<open>
  C7 on the code. A progress line whose size text \<^verbatim>\<open>1.2.3\<close> matches the pattern but is
  not a number makes \<^verbatim>\<open>float\<close> raise; the handler of the read loop terminates the
  download, and \<^verbatim>\<open>record()\<close> returns a failed result carrying the message of the
  ValueError. The same download with the size \<^verbatim>\<open>1.23\<close> on that line ends successfully.
\<close>

theorem unparsable_size_fails_the_recording:
  "record_stream progress_recorder bad_progress =
     ([Spawn (yt_cmd progress_recorder ''/tmp/multirec_a/download.ts''), Terminate, Wait_exit],
      Returned (failed (''could not convert string to float: '' @ [CHR 0x27] @ ''1.2.3'' @ [CHR 0x27])
                       ''2024-01-02T03:04:05'')) \<and>
   snd (record_stream progress_recorder good_progress) =
     Returned \<lparr> success = True, file_path = Some ''/rec/20240102T030405.mp4'',
                metadata_path = Some ''/rec/20240102T030405.json'', error = None,
                start_time = ''2024-01-02T03:04:05'', end_time = Some ''2024-01-02T04:04:05'' \<rparr>"
  by code_simp


section \<open>The transcode fallback\<close>

text \<open>
  C10. When the download was started, its output was read to the end and it exited with
  code 0, and the stream-copy remux exits non-zero, \<^verbatim>\<open>record()\<close> runs the libx264/aac
  transcode of the downloaded file and returns a result that is successful exactly when
  the transcode exits with code 0: then it carries the output file path, and otherwise
  the error names the transcode's exit code.
\<close>

theorem remux_failure_falls_back_to_transcode:
  assumes "yt_spawn_error env = None"
    and "read_loop (on_update r) (cancel_event r) (stdout_events env) = (acts, Loop_eof)"
    and "yt_returncode env = 0"
    and "remux env = Exit_code rc2" and "rc2 \<noteq> 0"
    and "transcode env = Exit_code rc3"
  shows "\<exists>log res.
           record_stream r env = (log, Returned res) \<and>
           Spawn [''ffmpeg'', ''-y'', ''-i'', temp_file_of env, ''-c:v'', ''libx264'', ''-crf'',
                  str_int (crf r), ''-c:a'', ''aac'', ''-movflags'', ''+faststart'',
                  output_file_of r env] \<in> set log \<and>
           success res = (rc3 = 0) \<and>
           (if rc3 = 0
            then file_path res = Some (output_file_of r env) \<and> error res = None
            else file_path res = None \<and>
                 error res = Some (''ffmpeg transcode exited with '' @ str_int rc3))"
  using assms
  by (simp add: record_stream_def remux_stage_def finish_def failed_def trans_cmd_def
                temp_file_of_def output_file_of_def Let_def)

theorem remux_failure_falls_back_to_transcode_witness:
  "yt_spawn_error remux_fails = None \<and>
   read_loop (on_update live_recorder) (cancel_event live_recorder) (stdout_events remux_fails)
     = ([], Loop_eof) \<and>
   yt_returncode remux_fails = 0 \<and> remux remux_fails = Exit_code 1 \<and>
   transcode remux_fails = Exit_code 0 \<and> transcode both_fail = Exit_code 1 \<and>
   (\<exists>log res. record_stream live_recorder remux_fails = (log, Returned res) \<and> success res \<and>
              file_path res = Some ''/rec/20240102T030405.mp4'') \<and>
   (\<exists>log res. record_stream live_recorder both_fail = (log, Returned res) \<and> \<not> success res \<and>
              error res = Some ''ffmpeg transcode exited with 1'')"
proof -
  have pre: "yt_spawn_error remux_fails = None"
    "read_loop (on_update live_recorder) (cancel_event live_recorder) (stdout_events remux_fails)
       = ([], Loop_eof)"
    "yt_returncode remux_fails = 0" "remux remux_fails = Exit_code 1" "(1::int) \<noteq> 0"
    "transcode remux_fails = Exit_code 0"
    by (simp_all add: remux_fails_def quiet_env_def live_recorder_def StreamRecorder_init_def)
  have pre2: "yt_spawn_error both_fail = None"
    "read_loop (on_update live_recorder) (cancel_event live_recorder) (stdout_events both_fail)
       = ([], Loop_eof)"
    "yt_returncode both_fail = 0" "remux both_fail = Exit_code 1"
    "transcode both_fail = Exit_code 1"
    by (simp_all add: both_fail_def quiet_env_def live_recorder_def StreamRecorder_init_def)
  have out: "output_file_of live_recorder remux_fails = ''/rec/20240102T030405.mp4''"
    by (simp add: output_file_of_def remux_fails_def quiet_env_def live_recorder_def
                  StreamRecorder_init_def path_join_def stamp_def)
  have one: "str_int 1 = ''1''" by (simp add: str_int_def digit_char_def)
  show ?thesis
    using remux_failure_falls_back_to_transcode [OF pre]
          remux_failure_falls_back_to_transcode [OF pre2(1,2,3,4) pre(5) pre2(5)] pre pre2
    by (auto simp: out one)
qed


end
